theory Spec2Isabelle
  imports Complex_Main "HOL-Library.Multiset"
begin

section \<open>Numbers, cells and insertion-ordered maps\<close>

text \<open>
  The server is TypeScript; every \<^verbatim>\<open>number\<close> is an IEEE double. Grid coordinates,
  tick counters and millisecond timestamps only ever hold integers and are modelled as
  \<^typ>\<open>int\<close> or \<^typ>\<open>nat\<close>. The fractional quantities of the simulation (arena edge
  length, speed, the fractional step counter, bot scores) are modelled as exact
  \<^typ>\<open>real\<close> numbers. Prize amounts are modelled as the doubles they are, with the
  rounding below.

  A cell \<^verbatim>\<open>{x, y}\<close> and a heading \<^verbatim>\<open>{dx, dy}\<close> are pairs.
\<close>

type_synonym cell = "int \<times> int"

text \<open>
  \<^verbatim>\<open>Array.prototype.sort(cmp)\<close> is a stable sort. For a comparator that is a strict
  weak order every stable sort gives the same result; the model is stable insertion
  sort: an element is placed before the first element it does not compare greater than,
  and elements are inserted from the back, so that equal elements keep their order.
\<close>

fun insert_by :: "('a \<Rightarrow> 'a \<Rightarrow> real) \<Rightarrow> 'a \<Rightarrow> 'a list \<Rightarrow> 'a list" where
  "insert_by cmp a [] = [a]"
| "insert_by cmp a (b # bs) = (if cmp a b \<le> 0 then a # b # bs else b # insert_by cmp a bs)"

fun sort_by :: "('a \<Rightarrow> 'a \<Rightarrow> real) \<Rightarrow> 'a list \<Rightarrow> 'a list" where
  "sort_by cmp [] = []"
| "sort_by cmp (a # as) = insert_by cmp a (sort_by cmp as)"

text \<open>
  A JavaScript \<^verbatim>\<open>Map\<close> iterates in insertion order; \<^verbatim>\<open>set\<close> on a present key
  replaces the value in place, on an absent key appends. It is an association list.
\<close>

fun map_set :: "'k \<Rightarrow> 'v \<Rightarrow> ('k \<times> 'v) list \<Rightarrow> ('k \<times> 'v) list" where
  "map_set k v [] = [(k, v)]"
| "map_set k v ((k', v') # m) =
     (if k' = k then (k, v) # m else (k', v') # map_set k v m)"

definition map_get :: "'k \<Rightarrow> ('k \<times> 'v) list \<Rightarrow> 'v option" where
  "map_get k m = map_of m k"

definition map_delete :: "'k \<Rightarrow> ('k \<times> 'v) list \<Rightarrow> ('k \<times> 'v) list" where
  "map_delete k m = filter (\<lambda>e. fst e \<noteq> k) m"

subsection \<open>Double-precision arithmetic\<close>

text \<open>
  A finite double is an integer multiple of a power of two: for a magnitude in the
  binade from \<open>2 ^ e\<close> up to \<open>2 ^ (e + 1)\<close> the spacing is \<open>2 ^ (e - 52)\<close>, and below
  \<open>2 ^ (- 1022)\<close> it stays \<open>2 ^ (- 1074)\<close>. A decimal literal, a product and a sum are
  each the exact result rounded to the nearest such multiple, a tie going to the even
  one. Overflow to infinity (magnitudes from \<open>2 ^ 1024\<close> on) is not modelled.
\<close>

definition round_half_even :: "real \<Rightarrow> int" where
  "round_half_even x =
     (let f = \<lfloor>x\<rfloor>; d = x - of_int f in
      if d < 1 / 2 then f else if 1 / 2 < d then f + 1 else if even f then f else f + 1)"

text \<open>
  The exponent \<open>e\<close> of the binade of a positive number, found by halving or doubling;
  the bound on the number of steps covers the whole range of the doubles.
\<close>

fun binade :: "nat \<Rightarrow> real \<Rightarrow> int" where
  "binade n x =
     (if n = 0 then 0
      else if 2 \<le> x then binade (n - 1) (x / 2) + 1
      else if x < 1 then binade (n - 1) (x * 2) - 1
      else 0)"

declare binade.simps [simp del]

definition pow2 :: "int \<Rightarrow> real" where
  "pow2 e = (if 0 \<le> e then 2 ^ nat e else 1 / 2 ^ nat (- e))"

definition double_round :: "real \<Rightarrow> real" where
  "double_round x =
     (if x = 0 then 0
      else (let e = max (binade 1100 \<bar>x\<bar>) (- 1022); ulp = pow2 (e - 52)
            in of_int (round_half_even (x / ulp)) * ulp))"

definition double_mul :: "real \<Rightarrow> real \<Rightarrow> real" where
  "double_mul a b = double_round (a * b)"

definition double_add :: "real \<Rightarrow> real \<Rightarrow> real" where
  "double_add a b = double_round (a + b)"

section \<open>Player (Player.ts)\<close>

text \<open>
  The fields \<^verbatim>\<open>color\<close> (random, cosmetic), \<^verbatim>\<open>lastMoveTime\<close> (a wall-clock stamp read
  only by clients) and \<^verbatim>\<open>trailDelay\<close> (both branches of \<^verbatim>\<open>addTrailSegment\<close> push the
  same cell) are left out.
\<close>

record player =
  pid :: string
  walletAddress :: string
  name :: string
  position :: cell
  prevPosition :: cell
  direction :: cell
  trail :: "cell list"
  alive :: bool
  isBot :: bool
  joinedAt :: int
  kills :: nat
  lastInputTime :: int
  subStep :: real
  survivalTime :: nat

definition Player_new :: "string \<Rightarrow> string \<Rightarrow> string \<Rightarrow> bool \<Rightarrow> int \<Rightarrow> player" where
  "Player_new i w n b now =
     \<lparr> pid = i, walletAddress = w, name = n, position = (0, 0), prevPosition = (0, 0),
       direction = (1, 0), trail = [], alive = True, isBot = b, joinedAt = now,
       kills = 0, lastInputTime = 0, subStep = 0, survivalTime = 0 \<rparr>"

definition setPosition :: "int \<Rightarrow> int \<Rightarrow> player \<Rightarrow> player" where
  "setPosition x y p = p\<lparr> prevPosition := position p, position := (x, y) \<rparr>"

definition setDirection :: "int \<Rightarrow> int \<Rightarrow> player \<Rightarrow> player" where
  "setDirection dx dy p =
     (if fst (direction p) + dx \<noteq> 0 \<or> snd (direction p) + dy \<noteq> 0
      then p\<lparr> direction := (dx, dy) \<rparr> else p)"

definition addTrailSegment :: "player \<Rightarrow> player" where
  "addTrailSegment p = p\<lparr> trail := trail p @ [position p] \<rparr>"

definition eliminate :: "player \<Rightarrow> player" where
  "eliminate p = p\<lparr> alive := False \<rparr>"

section \<open>Mode catalogue (GameManager.ts)\<close>

record gameModeConfig =
  mode_id :: string
  mode_name :: string
  mode_players :: nat
  mode_gridSize :: int
  entryFee :: real
  prize :: real

text \<open>The entry fees are doubles as written; the prizes are the doubles nearest to the literals.\<close>

definition GAME_MODES :: "(string \<times> gameModeConfig) list" where
  "GAME_MODES =
    [ (''duel'',   \<lparr> mode_id = ''duel'', mode_name = ''1v1'', mode_players = 2,
                    mode_gridSize = 36, entryFee = 0.50, prize = double_round 0.90 \<rparr>),
      (''squad'',  \<lparr> mode_id = ''squad'', mode_name = ''SQUAD'', mode_players = 4,
                    mode_gridSize = 52, entryFee = 0.50, prize = double_round 1.80 \<rparr>),
      (''ranked'', \<lparr> mode_id = ''ranked'', mode_name = ''RANKED'', mode_players = 8,
                    mode_gridSize = 84, entryFee = 1.00, prize = double_round 7.20 \<rparr>),
      (''arena'',  \<lparr> mode_id = ''arena'', mode_name = ''ARENA'', mode_players = 10,
                    mode_gridSize = 112, entryFee = 1.00, prize = double_round 9.00 \<rparr>) ]"

section \<open>Match simulation (Game.ts)\<close>

datatype game_state = Waiting | Active | Finished

datatype shrink_phase = Stable | Warning | Danger | Panic

text \<open>
  \<^verbatim>\<open>players\<close> is a \<^verbatim>\<open>Map\<close> from id to \<^verbatim>\<open>Player\<close> whose key is always the player's
  own id: it is kept as the list of players in insertion order. \<^verbatim>\<open>botTick\<close> is the
  \<^verbatim>\<open>tickCounter\<close> of the match's \<^verbatim>\<open>BotAI\<close> object. The socket server \<^verbatim>\<open>io\<close> and the
  timer handle are not state of the model; of the emitted events only the final
  rankings are modelled.
\<close>

record game =
  gid :: string
  players :: "player list"
  tickRate :: nat
  gridSize :: int
  arenaSize :: real
  shrinkRate :: real
  state :: game_state
  startTime :: int
  botTick :: nat
  gameSpeed :: real
  tickCounter :: nat
  shrinkPhase :: shrink_phase
  mode :: gameModeConfig
  lastBroadcastTime :: int
  lastSpeedIncreaseTime :: int

definition MIN_SPEED :: real where "MIN_SPEED = 0.3"
definition MAX_SPEED :: real where "MAX_SPEED = 0.7"
definition SPEED_INCREASE_INTERVAL :: int where "SPEED_INCREASE_INTERVAL = 5000"
definition SPEED_INCREMENT :: real where "SPEED_INCREMENT = 0.05"
definition BROADCAST_INTERVAL :: int where "BROADCAST_INTERVAL = 25"

subsection \<open>Termination: rankings and prize shares\<close>

record ranking =
  r_rank :: nat
  r_playerId :: string
  r_playerName :: string
  r_alive :: bool
  r_kills :: nat
  r_survivalTime :: int
  r_prize :: real

text \<open>The comparator of \<^verbatim>\<open>endGame\<close>.\<close>

definition rankCompare :: "player \<Rightarrow> player \<Rightarrow> real" where
  "rankCompare a b =
     (if alive a \<and> \<not> alive b then - 1
      else if \<not> alive a \<and> alive b then 1
      else real (survivalTime b) - real (survivalTime a))"

text \<open>
  \<^verbatim>\<open>calculatePrize(rank)\<close> takes the zero-based index into the rankings. The fractions
  are decimal literals and each share is one double multiplication.
\<close>

definition calculatePrize :: "game \<Rightarrow> nat \<Rightarrow> real" where
  "calculatePrize g r =
     (let totalPrize = prize (mode g) in
      if mode_players (mode g) \<le> 2 then (if r = 0 then totalPrize else 0)
      else if mode_players (mode g) \<le> 4 then
        (let distribution = [double_round 0.75, double_round 0.25] in
         if r < length distribution then double_mul totalPrize (distribution ! r) else 0)
      else
        (let distribution = [double_round 0.694, double_round 0.208, double_round 0.098] in
         if r < length distribution then double_mul totalPrize (distribution ! r) else 0))"

definition rankingEntry :: "game \<Rightarrow> nat \<Rightarrow> player \<Rightarrow> ranking" where
  "rankingEntry g index p =
     \<lparr> r_rank = index + 1, r_playerId = pid p, r_playerName = name p, r_alive = alive p,
       r_kills = kills p,
       r_survivalTime = \<lfloor>real (survivalTime p) / real (tickRate g)\<rfloor>,
       r_prize = calculatePrize g index \<rparr>"

definition rankedPlayers :: "game \<Rightarrow> player list" where
  "rankedPlayers g = sort_by rankCompare (players g)"

definition endGame :: "game \<Rightarrow> game \<times> ranking list" where
  "endGame g =
     (let rankings = rankedPlayers g in
      (g\<lparr> state := Finished \<rparr>,
       map (\<lambda>(index, p). rankingEntry g index p) (zip [0..<length rankings] rankings)))"

subsection \<open>Construction and spawn layout\<close>

text \<open>
  Operations on the participant map: \<^verbatim>\<open>set(p.id, p)\<close>, \<^verbatim>\<open>get(id)\<close> and the in-place
  mutation of the object that \<^verbatim>\<open>get(id)\<close> returns.
\<close>

fun put_player :: "player \<Rightarrow> player list \<Rightarrow> player list" where
  "put_player p [] = [p]"
| "put_player p (q # qs) = (if pid q = pid p then p # qs else q # put_player p qs)"

fun get_player :: "string \<Rightarrow> player list \<Rightarrow> player option" where
  "get_player k [] = None"
| "get_player k (q # qs) = (if pid q = k then Some q else get_player k qs)"

fun modify_player :: "string \<Rightarrow> (player \<Rightarrow> player) \<Rightarrow> player list \<Rightarrow> player list" where
  "modify_player k f [] = []"
| "modify_player k f (q # qs) = (if pid q = k then f q # qs else q # modify_player k f qs)"

definition delete_player :: "string \<Rightarrow> player list \<Rightarrow> player list" where
  "delete_player k ps = filter (\<lambda>q. pid q \<noteq> k) ps"

definition players_map :: "player list \<Rightarrow> player list" where
  "players_map ps = foldl (\<lambda>m p. put_player p m) [] ps"

text \<open>
  The body of the \<^verbatim>\<open>forEach\<close> of \<^verbatim>\<open>initializePlayerPositions\<close> for the player at
  \<open>index\<close> of \<open>n\<close>. Cosine, sine and \<open>\<pi>\<close> are the real ones.
\<close>

definition spawnPlayer :: "int \<Rightarrow> nat \<Rightarrow> nat \<Rightarrow> player \<Rightarrow> player" where
  "spawnPlayer gs n index p =
     (let angleStep = (2 * pi) / real n;
          spawnRadius = real_of_int gs * 0.35;
          center = real_of_int gs / 2;
          angle = real index * angleStep - pi / 2;
          x = \<lfloor>center + cos angle * spawnRadius\<rfloor>;
          y = \<lfloor>center + sin angle * spawnRadius\<rfloor>;
          p1 = addTrailSegment (setPosition x y p);
          dx = center - real_of_int x;
          dy = center - real_of_int y
      in if \<bar>dx\<bar> > \<bar>dy\<bar> then setDirection (if dx > 0 then 1 else - 1) 0 p1
         else setDirection 0 (if dy > 0 then 1 else - 1) p1)"

definition initializePlayerPositions :: "game \<Rightarrow> game" where
  "initializePlayerPositions g =
     g\<lparr> players :=
          map (\<lambda>index. spawnPlayer (gridSize g) (length (players g)) index (players g ! index))
            [0..<length (players g)] \<rparr>"

definition Game_new :: "string \<Rightarrow> player list \<Rightarrow> gameModeConfig \<Rightarrow> game" where
  "Game_new i ps m =
     initializePlayerPositions
       \<lparr> gid = i, players = players_map ps, tickRate = 20,
         gridSize = mode_gridSize m, arenaSize = real_of_int (mode_gridSize m),
         shrinkRate = (if mode_gridSize m \<le> 40 then 0.002
                       else if mode_gridSize m \<le> 55 then 0.003
                       else if mode_gridSize m \<le> 90 then 0.004 else 0.005),
         state = Waiting, startTime = 0, botTick = 0, gameSpeed = MIN_SPEED,
         tickCounter = 0, shrinkPhase = Stable, mode = m,
         lastBroadcastTime = 0, lastSpeedIncreaseTime = 0 \<rparr>"


definition activate :: "int \<Rightarrow> game \<Rightarrow> game" where
  "activate now g = g\<lparr> state := Active, lastSpeedIncreaseTime := now, gameSpeed := MIN_SPEED \<rparr>"

subsection \<open>Collision, elimination, arena shrink\<close>

definition checkCollision :: "game \<Rightarrow> int \<Rightarrow> int \<Rightarrow> string \<Rightarrow> bool" where
  "checkCollision g x y playerId =
     (let limit = (real_of_int (gridSize g) - arenaSize g) / 2 in
      if real_of_int x < limit \<or> real_of_int x \<ge> real_of_int (gridSize g) - limit
         \<or> real_of_int y < limit \<or> real_of_int y \<ge> real_of_int (gridSize g) - limit
      then True
      else list_ex (\<lambda>p. list_ex (\<lambda>segment. fst segment = x \<and> snd segment = y) (trail p))
             (players g))"

definition eliminatePlayer :: "game \<Rightarrow> string \<Rightarrow> game" where
  "eliminatePlayer g playerId = g\<lparr> players := modify_player playerId eliminate (players g) \<rparr>"

definition updateArenaShrink :: "game \<Rightarrow> game" where
  "updateArenaShrink g =
     (let minSize = real_of_int (gridSize g) * 0.25;
          a = max (arenaSize g - shrinkRate g) minSize;
          percentage = (a / real_of_int (gridSize g)) * 100
      in g\<lparr> arenaSize := a,
            shrinkPhase := (if percentage < 30 then Panic
                            else if percentage < 50 then Danger
                            else if percentage < 70 then Warning else Stable) \<rparr>)"

subsection \<open>Bot controller (BotAI.ts)\<close>

definition LOOK_AHEAD :: nat where "LOOK_AHEAD = 5"
definition DANGER_THRESHOLD :: real where "DANGER_THRESHOLD = 3"
definition BOT_THINK_INTERVAL :: int where "BOT_THINK_INTERVAL = 3"

definition isCollision :: "game \<Rightarrow> int \<Rightarrow> int \<Rightarrow> bool" where
  "isCollision g x y =
     (let limit = (real_of_int (gridSize g) - arenaSize g) / 2 in
      if real_of_int x < limit \<or> real_of_int x \<ge> real_of_int (gridSize g) - limit
         \<or> real_of_int y < limit \<or> real_of_int y \<ge> real_of_int (gridSize g) - limit
      then True
      else list_ex (\<lambda>p. list_ex (\<lambda>segment. fst segment = x \<and> snd segment = y) (trail p))
             (players g))"

definition countOpenSpace :: "game \<Rightarrow> int \<Rightarrow> int \<Rightarrow> nat" where
  "countOpenSpace g x y =
     (let checkRadius = 3 in
      length (filter (\<lambda>d. \<not> isCollision g (x + fst d) (y + snd d))
                (List.product [- checkRadius..checkRadius] [- checkRadius..checkRadius])))"

text \<open>
  The look-ahead loop \<^verbatim>\<open>for (i = 1; i <= LOOK_AHEAD; i++)\<close> over the remaining values
  of \<open>i\<close>: it advances the probe, and at the first collision subtracts the penalty and
  breaks.
\<close>

fun lookAhead :: "game \<Rightarrow> cell \<Rightarrow> cell \<Rightarrow> nat list \<Rightarrow> real \<Rightarrow> real" where
  "lookAhead g cur d [] score = score"
| "lookAhead g cur d (i # is) score =
     (let currentX = fst cur + fst d; currentY = snd cur + snd d in
      if isCollision g currentX currentY then score - real ((LOOK_AHEAD - i + 1) * 20)
      else lookAhead g (currentX, currentY) d is score)"

definition scoreDirection :: "game \<Rightarrow> player \<Rightarrow> cell \<Rightarrow> real" where
  "scoreDirection g bt d =
     (let nextX = fst (position bt) + fst d;
          nextY = snd (position bt) + snd d
      in if isCollision g nextX nextY then - 1000
         else
          (let score1 = lookAhead g (nextX, nextY) d [1..<LOOK_AHEAD + 1] 100;
               center = real_of_int (gridSize g) / 2;
               distanceToCenter = \<bar>real_of_int nextX - center\<bar> + \<bar>real_of_int nextY - center\<bar>;
               score2 = score1 - distanceToCenter * 0.5;
               limit = (real_of_int (gridSize g) - arenaSize g) / 2;
               distanceToEdge =
                 min (min (real_of_int nextX - limit) (real_of_int nextY - limit))
                     (min (real_of_int (gridSize g) - limit - real_of_int nextX)
                          (real_of_int (gridSize g) - limit - real_of_int nextY));
               score3 = (if distanceToEdge < DANGER_THRESHOLD
                         then score2 - (DANGER_THRESHOLD - distanceToEdge) * 30 else score2);
               openSpace = countOpenSpace g nextX nextY
           in score3 + real openSpace * 2))"

definition validDirections :: "player \<Rightarrow> cell list" where
  "validDirections bt =
     filter (\<lambda>dir. fst (direction bt) + fst dir \<noteq> 0 \<or> snd (direction bt) + snd dir \<noteq> 0)
       [(0, - 1), (0, 1), (- 1, 0), (1, 0)]"

definition scoredDirections :: "game \<Rightarrow> player \<Rightarrow> (cell \<times> real) list" where
  "scoredDirections g bt =
     sort_by (\<lambda>c1 c2. snd c2 - snd c1)
       (map (\<lambda>dir. (dir, scoreDirection g bt dir)) (validDirections bt))"

definition calculateBestDirection :: "game \<Rightarrow> player \<Rightarrow> cell option" where
  "calculateBestDirection g bt =
     (case scoredDirections g bt of
        [] \<Rightarrow> None
      | best # _ \<Rightarrow> if snd best > 0 then Some (fst best) else None)"

text \<open>
  The id-derived offset \<^verbatim>\<open>parseInt(player.id.split('_').pop() || '0') % 3\<close>.
  \<^verbatim>\<open>parseInt\<close> skips leading blanks, reads a sign, then hexadecimal digits after
  \<^verbatim>\<open>0x\<close> or else decimal digits, and yields \<^verbatim>\<open>NaN\<close> (here \<open>None\<close>) when there is no
  digit; the loss of precision of doubles beyond \<open>2\<^sup>5\<^sup>3\<close> is not modelled. The
  remainder \<^verbatim>\<open>%\<close> takes the sign of the dividend.
\<close>

definition lastSegment :: "string \<Rightarrow> string" where
  "lastSegment s = rev (takeWhile (\<lambda>c. c \<noteq> CHR ''_'') (rev s))"

definition digitValue :: "char \<Rightarrow> nat option" where
  "digitValue c =
     (let n = (of_char c :: nat) in
      if 48 \<le> n \<and> n \<le> 57 then Some (n - 48)
      else if 97 \<le> n \<and> n \<le> 102 then Some (n - 87)
      else if 65 \<le> n \<and> n \<le> 70 then Some (n - 55)
      else None)"

definition isDigitIn :: "nat \<Rightarrow> char \<Rightarrow> bool" where
  "isDigitIn radix c = (case digitValue c of None \<Rightarrow> False | Some v \<Rightarrow> v < radix)"

definition digitsValue :: "nat \<Rightarrow> string \<Rightarrow> nat option" where
  "digitsValue radix s =
     (let ds = takeWhile (isDigitIn radix) s in
      if ds = [] then None
      else Some (foldl (\<lambda>a c. radix * a + the (digitValue c)) 0 ds))"

definition isBlank :: "char \<Rightarrow> bool" where
  "isBlank c = ((of_char c :: nat) \<in> {9, 10, 11, 12, 13, 32})"

definition parseInt :: "string \<Rightarrow> int option" where
  "parseInt s =
     (let t = dropWhile isBlank s;
          neg = (t \<noteq> [] \<and> hd t = CHR ''-'');
          u = (if t \<noteq> [] \<and> (hd t = CHR ''-'' \<or> hd t = CHR ''+'') then tl t else t);
          hex = (take 2 u = ''0x'' \<or> take 2 u = ''0X'');
          v = (if hex then digitsValue 16 (drop 2 u) else digitsValue 10 u)
      in map_option (\<lambda>n. if neg then - int n else int n) v)"

definition js_rem :: "int \<Rightarrow> int \<Rightarrow> int" where
  "js_rem a b = sgn a * (\<bar>a\<bar> mod \<bar>b\<bar>)"

text \<open>The body of the \<^verbatim>\<open>forEach\<close> of \<^verbatim>\<open>updateBots\<close> for one participant.\<close>

definition botThink :: "game \<Rightarrow> player \<Rightarrow> player" where
  "botThink g p =
     (if \<not> isBot p \<or> \<not> alive p then p
      else case parseInt (if lastSegment (pid p) = [] then ''0'' else lastSegment (pid p)) of
        None \<Rightarrow> p
      | Some n \<Rightarrow>
         (let botOffset = js_rem n BOT_THINK_INTERVAL in
          if js_rem (int (botTick g) + botOffset) BOT_THINK_INTERVAL \<noteq> 0 then p
          else case calculateBestDirection g p of
                 None \<Rightarrow> p
               | Some bestDirection \<Rightarrow> setDirection (fst bestDirection) (snd bestDirection) p))"

text \<open>
  Scoring reads positions, trails and the arena, none of which \<^verbatim>\<open>setDirection\<close>
  changes, so every bot of one \<^verbatim>\<open>updateBots\<close> call decides on the same match state.
\<close>

definition updateBots :: "game \<Rightarrow> game" where
  "updateBots g =
     (let g1 = g\<lparr> botTick := botTick g + 1 \<rparr> in g1\<lparr> players := map (botThink g1) (players g1) \<rparr>)"

subsection \<open>The tick\<close>

text \<open>
  The \<^verbatim>\<open>while (player.subStep >= 1.0)\<close> loop for the participant at index \<open>i\<close> of the
  map's iteration order. Keys of a \<^verbatim>\<open>Map\<close> are unique, so the object that
  \<^verbatim>\<open>eliminatePlayer(player.id)\<close> looks up is the visited one. The near-miss test only
  emits an event.
\<close>

function moveLoop :: "game \<Rightarrow> nat \<Rightarrow> game" where
  "moveLoop g i =
     (if i < length (players g) \<and> subStep (players g ! i) \<ge> 1 then
        (let p = (players g ! i)\<lparr> subStep := subStep (players g ! i) - 1 \<rparr>;
             g1 = g\<lparr> players := (players g)[i := p] \<rparr>;
             nextX = fst (position p) + fst (direction p);
             nextY = snd (position p) + snd (direction p)
         in if checkCollision g1 nextX nextY (pid p)
            then g1\<lparr> players := (players g1)[i := eliminate p] \<rparr>
            else moveLoop
                   (g1\<lparr> players := (players g1)
                          [i := (addTrailSegment (setPosition nextX nextY p))
                                  \<lparr> survivalTime := tickCounter g \<rparr>] \<rparr>) i)
      else g)"
  by pat_completeness auto
termination
proof (relation "measure (\<lambda>(g, i). nat \<lfloor>subStep (players g ! i)\<rfloor>)")
  show "wf (measure (\<lambda>(g, i). nat \<lfloor>subStep (players g ! i)\<rfloor>))"
    by simp
next
  fix g :: game and i :: nat and p g1 nextX nextY
  assume "i < length (players g) \<and> 1 \<le> subStep (players g ! i)"
    and p: "p = (players g ! i)\<lparr> subStep := subStep (players g ! i) - 1 \<rparr>"
    and g1: "g1 = g\<lparr> players := (players g)[i := p] \<rparr>"
  then have i: "i < length (players g)" and s: "1 \<le> subStep (players g ! i)"
    by simp_all
  have "nat \<lfloor>subStep (players g ! i) - 1\<rfloor> < nat \<lfloor>subStep (players g ! i)\<rfloor>"
    using s by linarith
  then show "((g1\<lparr> players := (players g1)
                  [i := (addTrailSegment (setPosition nextX nextY p))
                          \<lparr> survivalTime := tickCounter g \<rparr>] \<rparr>, i), (g, i))
             \<in> measure (\<lambda>(g, i). nat \<lfloor>subStep (players g ! i)\<rfloor>)"
    using i by (simp add: p g1 addTrailSegment_def setPosition_def)
qed

definition movePlayer :: "game \<Rightarrow> nat \<Rightarrow> game" where
  "movePlayer g i =
     (let p = players g ! i in
      if \<not> alive p then g
      else moveLoop (g\<lparr> players := (players g)[i := p\<lparr> subStep := subStep p + gameSpeed g \<rparr>] \<rparr>) i)"

definition winCondition :: "game \<Rightarrow> nat" where
  "winCondition g =
     (if mode_players (mode g) \<le> 2 then 1 else if mode_players (mode g) \<le> 4 then 1 else 3)"

definition tick :: "int \<Rightarrow> game \<Rightarrow> game" where
  "tick now g =
     (if state g \<noteq> Active then g
      else
       (let g1 = g\<lparr> tickCounter := tickCounter g + 1 \<rparr>;
            g2 = (if now - lastSpeedIncreaseTime g1 \<ge> SPEED_INCREASE_INTERVAL
                  then g1\<lparr> lastSpeedIncreaseTime := now,
                           gameSpeed := min MAX_SPEED (gameSpeed g1 + SPEED_INCREMENT) \<rparr>
                  else g1);
            g3 = (if tickCounter g2 mod 2 = 0 then updateBots g2 else g2);
            g4 = foldl movePlayer g3 [0..<length (players g3)];
            g5 = updateArenaShrink g4;
            g6 = (if now - lastBroadcastTime g5 \<ge> BROADCAST_INTERVAL
                  then g5\<lparr> lastBroadcastTime := now \<rparr> else g5);
            alivePlayers = filter alive (players g6)
        in if length alivePlayers \<le> winCondition g6 then fst (endGame g6) else g6))"

subsection \<open>Directional input and disconnects\<close>

definition applyDirection :: "string \<Rightarrow> player \<Rightarrow> player" where
  "applyDirection dir p =
     (if dir = ''up'' \<and> snd (direction p) = 0 then setDirection 0 (- 1) p
      else if dir = ''down'' \<and> snd (direction p) = 0 then setDirection 0 1 p
      else if dir = ''left'' \<and> fst (direction p) = 0 then setDirection (- 1) 0 p
      else if dir = ''right'' \<and> fst (direction p) = 0 then setDirection 1 0 p
      else p)"

definition handlePlayerInput :: "game \<Rightarrow> string \<Rightarrow> string \<Rightarrow> int \<Rightarrow> game" where
  "handlePlayerInput g playerId dir now =
     (case get_player playerId (players g) of
        None \<Rightarrow> g
      | Some player \<Rightarrow>
          if \<not> alive player \<or> isBot player then g
          else g\<lparr> players :=
                    modify_player playerId
                      (\<lambda>p. (applyDirection dir p)\<lparr> lastInputTime := now \<rparr>) (players g) \<rparr>)"

definition removePlayer :: "game \<Rightarrow> string \<Rightarrow> game" where
  "removePlayer g playerId =
     (case get_player playerId (players g) of
        None \<Rightarrow> g
      | Some player \<Rightarrow> if alive player then eliminatePlayer g playerId else g)"

definition isFinished :: "game \<Rightarrow> bool" where
  "isFinished g = (state g = Finished)"

text \<open>Everything that can happen to a match once it is constructed.\<close>

datatype game_event =
    Activate int
  | Tick int
  | Input string string int
  | Disconnect string

fun game_step :: "game \<Rightarrow> game_event \<Rightarrow> game" where
  "game_step g (Activate now) = activate now g"
| "game_step g (Tick now) = tick now g"
| "game_step g (Input playerId dir now) = handlePlayerInput g playerId dir now"
| "game_step g (Disconnect playerId) = removePlayer g playerId"

definition game_run :: "game \<Rightarrow> game_event list \<Rightarrow> game" where
  "game_run g es = foldl game_step g es"

section \<open>Anti-cheat filter (AntiCheat.ts)\<close>

record inputHistory =
  ih_timestamp :: int
  ih_direction :: string

record player_data =
  inputHistory :: "inputHistory list"
  lastPosition :: "cell option"
  warningCount :: nat
  flagged :: bool

text \<open>The filter's only state is its \<^verbatim>\<open>Map\<close> from participant id to tracking data.\<close>

record antiCheat =
  playerData :: "string \<rightharpoonup> player_data"

text \<open>
  A directional command as the client sends it: a direction token and an optional
  client timestamp, which the server never reads.
\<close>

record player_input =
  in_direction :: string
  in_timestamp :: "int option"

definition MAX_WARNINGS :: nat where "MAX_WARNINGS = 3"
definition MIN_INPUT_DELAY :: int where "MIN_INPUT_DELAY = 50"

definition AntiCheat_new :: antiCheat where
  "AntiCheat_new = \<lparr> playerData = Map.empty \<rparr>"

text \<open>\<open>now\<close> is the value of \<^verbatim>\<open>Date.now()\<close> during the call.\<close>

definition validateInputTiming :: "player_data \<Rightarrow> int \<Rightarrow> bool" where
  "validateInputTiming data now =
     (if length (inputHistory data) = 0 then True
      else (let lastInput = last (inputHistory data);
                timeDiff = now - ih_timestamp lastInput
            in timeDiff \<ge> MIN_INPUT_DELAY))"

definition validateDirection :: "string \<Rightarrow> bool" where
  "validateDirection d = (d \<in> set [''up'', ''down'', ''left'', ''right''])"

definition detectBotPattern :: "player_data \<Rightarrow> bool" where
  "detectBotPattern data =
     (if length (inputHistory data) < 10 then False
      else
       (let h = inputHistory data;
            intervals = map (\<lambda>i. ih_timestamp (h ! i) - ih_timestamp (h ! (i - 1))) [1..<length h];
            mean = real_of_int (sum_list intervals) / real (length intervals);
            variance = sum_list (map (\<lambda>val. (real_of_int val - mean)\<^sup>2) intervals)
                         / real (length intervals);
            stdDev = sqrt variance
        in stdDev < 10))"

definition flagPlayer :: "antiCheat \<Rightarrow> string \<Rightarrow> antiCheat" where
  "flagPlayer ac playerId =
     (case playerData ac playerId of
        None \<Rightarrow> ac
      | Some data \<Rightarrow>
         (let data1 = data\<lparr> warningCount := warningCount data + 1 \<rparr>;
              data2 = (if warningCount data1 \<ge> MAX_WARNINGS then data1\<lparr> flagged := True \<rparr>
                       else data1)
          in ac\<lparr> playerData := (playerData ac)(playerId \<mapsto> data2) \<rparr>))"

definition validateInput :: "antiCheat \<Rightarrow> string \<Rightarrow> player_input \<Rightarrow> int \<Rightarrow> bool \<times> antiCheat" where
  "validateInput ac playerId input now =
     (let data = (case playerData ac playerId of
                    None \<Rightarrow> \<lparr> inputHistory = [], lastPosition = None,
                              warningCount = 0, flagged = False \<rparr>
                  | Some d \<Rightarrow> d);
          ac1 = ac\<lparr> playerData := (playerData ac)(playerId \<mapsto> data) \<rparr>
      in if flagged data then (False, ac1)
         else if \<not> validateInputTiming data now then (False, flagPlayer ac1 playerId)
         else if \<not> validateDirection (in_direction input) then (False, flagPlayer ac1 playerId)
         else if detectBotPattern data then (False, flagPlayer ac1 playerId)
         else
          (let h = inputHistory data @ [\<lparr> ih_timestamp = now, ih_direction = in_direction input \<rparr>];
               h1 = (if length h > 20 then tl h else h)
           in (True, ac1\<lparr> playerData := (playerData ac1)(playerId \<mapsto> data\<lparr> inputHistory := h1 \<rparr>) \<rparr>)))"

definition clearPlayerData :: "antiCheat \<Rightarrow> string \<Rightarrow> antiCheat" where
  "clearPlayerData ac playerId = ac\<lparr> playerData := (playerData ac)(playerId := None) \<rparr>"

definition isPlayerFlagged :: "antiCheat \<Rightarrow> string \<Rightarrow> bool" where
  "isPlayerFlagged ac playerId =
     (case playerData ac playerId of None \<Rightarrow> False | Some d \<Rightarrow> flagged d)"

text \<open>
  One participant's commands, each with its arrival time, passed through the filter in
  order: the verdicts and the filter afterwards.
\<close>

fun validateInputs :: "antiCheat \<Rightarrow> string \<Rightarrow> (player_input \<times> int) list \<Rightarrow> bool list \<times> antiCheat" where
  "validateInputs ac playerId [] = ([], ac)"
| "validateInputs ac playerId (c # cs) =
     (let r = validateInput ac playerId (fst c) (snd c);
          rs = validateInputs (snd r) playerId cs
      in (fst r # fst rs, snd rs))"

text \<open>Commands arriving every \<open>period\<close> milliseconds from time \<open>t0\<close> on.\<close>

definition uniformCadence :: "int \<Rightarrow> int \<Rightarrow> player_input list \<Rightarrow> (player_input \<times> int) list" where
  "uniformCadence t0 period inputs =
     map (\<lambda>i. (inputs ! i, t0 + period * int i)) [0..<length inputs]"

section \<open>Matchmaking (GameManager.ts)\<close>

record gameManager =
  games :: "(string \<times> game) list"
  lobbies :: "(string \<times> player list) list"
  playerToGame :: "(string \<times> string) list"
  playerToLobby :: "(string \<times> string) list"
  DEMO_MODE :: bool

definition MIN_WAIT_TIME :: int where "MIN_WAIT_TIME = 5000"














definition gm_handlePlayerInput :: "gameManager \<Rightarrow> string \<Rightarrow> player_input \<Rightarrow> int \<Rightarrow> gameManager" where
  "gm_handlePlayerInput gm socketId input now =
     (case map_get socketId (playerToGame gm) of
        None \<Rightarrow> gm
      | Some gameId \<Rightarrow>
         (case map_get gameId (games gm) of
            None \<Rightarrow> gm
          | Some g \<Rightarrow>
              gm\<lparr> games := map_set gameId (handlePlayerInput g socketId (in_direction input) now)
                               (games gm) \<rparr>))"

definition gm_removePlayer :: "gameManager \<Rightarrow> string \<Rightarrow> gameManager" where
  "gm_removePlayer gm socketId =
     (let gm1 = (case map_get socketId (playerToLobby gm) of
                   None \<Rightarrow> gm
                 | Some modeId \<Rightarrow>
                     (case map_get modeId (lobbies gm) of
                        None \<Rightarrow> gm
                      | Some lobby \<Rightarrow>
                          gm\<lparr> lobbies := map_set modeId (delete_player socketId lobby) (lobbies gm) \<rparr>)
                     \<lparr> playerToLobby := map_delete socketId (playerToLobby gm) \<rparr>)
      in case map_get socketId (playerToGame gm1) of
           None \<Rightarrow> gm1
         | Some gameId \<Rightarrow>
             (case map_get gameId (games gm1) of
                None \<Rightarrow> gm1
              | Some g \<Rightarrow>
                 (let g1 = removePlayer g socketId in
                  gm1\<lparr> games := (if isFinished g1 then map_delete gameId (games gm1)
                                   else map_set gameId g1 (games gm1)) \<rparr>))
             \<lparr> playerToGame := map_delete socketId (playerToGame gm1) \<rparr>)"

section \<open>Socket handlers (index.ts)\<close>

record server =
  srv_gameManager :: gameManager
  srv_antiCheat :: antiCheat
  onlinePlayersCount :: nat

text \<open>
  \<^verbatim>\<open>validatePlayerInput\<close> is the Joi schema: the direction must be one of the four
  tokens, else it throws.
\<close>

definition validatePlayerInput :: "player_input \<Rightarrow> string + player_input" where
  "validatePlayerInput input =
     (if in_direction input \<in> set [''up'', ''down'', ''left'', ''right''] then Inr input
      else Inl ''Invalid input'')"

definition on_player_input :: "server \<Rightarrow> string \<Rightarrow> player_input \<Rightarrow> int \<Rightarrow> server" where
  "on_player_input srv socketId input now =
     (case validatePlayerInput input of
        Inl err \<Rightarrow> srv
      | Inr validated \<Rightarrow>
         (let r = validateInput (srv_antiCheat srv) socketId validated now in
          if \<not> fst r then srv\<lparr> srv_antiCheat := snd r \<rparr>
          else srv\<lparr> srv_antiCheat := snd r,
                    srv_gameManager :=
                      gm_handlePlayerInput (srv_gameManager srv) socketId validated now \<rparr>))"

definition on_disconnect :: "server \<Rightarrow> string \<Rightarrow> server" where
  "on_disconnect srv socketId =
     srv\<lparr> onlinePlayersCount := onlinePlayersCount srv - 1,
          srv_gameManager := gm_removePlayer (srv_gameManager srv) socketId,
          srv_antiCheat := clearPlayerData (srv_antiCheat srv) socketId \<rparr>"

section \<open>Sample match states\<close>

text \<open>
  Concrete states on which the theorems below are exercised. A sample match takes the
  settings that the constructor derives from the mode and is given its participants,
  its arena edge length and the active state directly.
\<close>

definition sample_game :: "gameModeConfig \<Rightarrow> player list \<Rightarrow> real \<Rightarrow> game" where
  "sample_game m ps a = (Game_new ''game_1'' [] m)\<lparr> players := ps, arenaSize := a, state := Active \<rparr>"

definition sample_player :: "string \<Rightarrow> cell \<Rightarrow> cell \<Rightarrow> cell list \<Rightarrow> bool \<Rightarrow> nat \<Rightarrow> player" where
  "sample_player i pos d tr al sv =
     (Player_new i ''wallet'' i False 0)
       \<lparr> position := pos, direction := d, trail := tr, alive := al, survivalTime := sv \<rparr>"

definition squad_mode :: gameModeConfig where
  "squad_mode = snd (GAME_MODES ! 1)"

definition duel_mode :: gameModeConfig where
  "duel_mode = snd (GAME_MODES ! 0)"

definition ranked_mode :: gameModeConfig where
  "ranked_mode = snd (GAME_MODES ! 2)"

lemmas sample_defs =
  sample_game_def sample_player_def duel_mode_def squad_mode_def ranked_mode_def GAME_MODES_def
  Game_new_def
  initializePlayerPositions_def players_map_def Player_new_def

text \<open>A duel between two humans, as the constructor lays it out.\<close>

definition duel_pair :: "player list" where
  "duel_pair = [Player_new ''socket_a'' ''wallet_a'' ''RIDER_1000'' False 0,
                Player_new ''socket_b'' ''wallet_b'' ''RIDER_2000'' False 10]"

definition duel_start :: game where
  "duel_start = Game_new ''game_duel_10'' duel_pair duel_mode"

lemma duel_start_eq:
  "duel_start =
     \<lparr> gid = ''game_duel_10'',
       players =
         [\<lparr> pid = ''socket_a'', walletAddress = ''wallet_a'', name = ''RIDER_1000'',
            position = (18, 5), prevPosition = (0, 0), direction = (0, 1), trail = [(18, 5)],
            alive = True, isBot = False, joinedAt = 0, kills = 0, lastInputTime = 0,
            subStep = 0, survivalTime = 0 \<rparr>,
          \<lparr> pid = ''socket_b'', walletAddress = ''wallet_b'', name = ''RIDER_2000'',
            position = (18, 30), prevPosition = (0, 0), direction = (0, - 1), trail = [(18, 30)],
            alive = True, isBot = False, joinedAt = 10, kills = 0, lastInputTime = 0,
            subStep = 0, survivalTime = 0 \<rparr>],
       tickRate = 20, gridSize = 36, arenaSize = 36, shrinkRate = 0.002, state = Waiting,
       startTime = 0, botTick = 0, gameSpeed = 0.3, tickCounter = 0, shrinkPhase = Stable,
       mode = duel_mode, lastBroadcastTime = 0, lastSpeedIncreaseTime = 0 \<rparr>"
  by (simp add: duel_start_def duel_pair_def sample_defs spawnPlayer_def Let_def MIN_SPEED_def
      setPosition_def addTrailSegment_def setDirection_def upt_rec[of 0] upt_rec[of "Suc 0"])

text \<open>
  A finished squad match: one survivor and three eliminated participants, listed in the
  order in which they joined.
\<close>

definition squad_final :: game where
  "squad_final = sample_game squad_mode
     [ sample_player ''a'' (20, 20) (1, 0) [(19, 20), (20, 20)] True 100,
       sample_player ''b'' (30, 30) (0, 1) [(30, 29), (30, 30)] False 40,
       sample_player ''c'' (10, 10) (0, 1) [(10, 9), (10, 10)] False 70,
       sample_player ''d'' (40, 12) (0, 1) [(40, 11), (40, 12)] False 55 ] 50"

text \<open>
  A ranked match of eight at its end: one survivor and seven eliminated participants.
\<close>

definition ranked_final :: game where
  "ranked_final = sample_game ranked_mode
     [ sample_player ''a'' (20, 20) (1, 0) [(19, 20), (20, 20)] False 310,
       sample_player ''b'' (30, 30) (0, 1) [(30, 29), (30, 30)] False 40,
       sample_player ''c'' (40, 40) (0, 1) [(40, 39), (40, 40)] True 400,
       sample_player ''d'' (50, 12) (0, 1) [(50, 11), (50, 12)] False 55,
       sample_player ''e'' (60, 60) (1, 0) [(59, 60), (60, 60)] False 120,
       sample_player ''f'' (25, 70) (1, 0) [(24, 70), (25, 70)] False 200,
       sample_player ''g'' (35, 50) (1, 0) [(34, 50), (35, 50)] False 90,
       sample_player ''h'' (45, 25) (1, 0) [(44, 25), (45, 25)] False 250 ] 60"

text \<open>
  A duel in which the first participant is one step away from the second one's cell and
  has accumulated more than a full step.
\<close>

definition duel_crash :: game where
  "duel_crash = sample_game duel_mode
     [ (sample_player ''socket_a'' (18, 29) (0, 1) [(18, 28), (18, 29)] True 80)\<lparr> subStep := 1.1 \<rparr>,
       sample_player ''socket_b'' (18, 30) (0, - 1) [(18, 30)] True 0 ] 35.9"

text \<open>
  A squad match in which a bot heading down is boxed in: the three cells it may turn to
  all lie on the other participant's trail.
\<close>

definition boxed_bot :: player where
  "boxed_bot = (sample_player ''bot_squad_1000_0'' (10, 10) (0, 1) [(10, 9), (10, 10)] True 40)
                 \<lparr> isBot := True \<rparr>"

definition boxed_game :: game where
  "boxed_game = sample_game squad_mode
     [ boxed_bot,
       sample_player ''socket_x'' (11, 10) (0, - 1)
         [(9, 10), (9, 11), (10, 11), (11, 11), (11, 10)] True 40 ] 51"

text \<open>
  A duel after 1000 ticks: the arena edge has shrunk from 36 to 34, so the inset border
  is at 1. The first participant rides down the column \<open>x = 1\<close>, the second is in the
  middle of the grid.
\<close>

definition duel_edge :: game where
  "duel_edge =
     (sample_game duel_mode
        [ sample_player ''socket_a'' (1, 20) (0, 1) [(1, 17), (1, 18), (1, 19), (1, 20)] True 1000,
          sample_player ''socket_b'' (18, 18) (0, - 1) [(18, 20), (18, 19), (18, 18)] True 1000 ] 34)
       \<lparr> tickCounter := 1000, gameSpeed := 0.7, lastSpeedIncreaseTime := 43500 \<rparr>"


section \<open>Stable insertion sort\<close>

lemma mset_insert_by: "mset (insert_by cmp a xs) = add_mset a (mset xs)"
  by (induction xs) auto

lemma mset_sort_by: "mset (sort_by cmp xs) = mset xs"
  by (induction xs) (auto simp: mset_insert_by)

lemma set_insert_by: "set (insert_by cmp a xs) = insert a (set xs)"
  by (induction xs) auto

lemma length_insert_by: "length (insert_by cmp a xs) = Suc (length xs)"
  by (induction xs) auto

lemma length_sort_by: "length (sort_by cmp xs) = length xs"
  by (induction xs) (auto simp: length_insert_by)

lemma set_sort_by: "set (sort_by cmp xs) = set xs"
  by (induction xs) (auto simp: set_insert_by)

lemma sorted_insert_by:
  assumes tr: "\<And>a b c. cmp a b \<le> 0 \<Longrightarrow> cmp b c \<le> 0 \<Longrightarrow> cmp a c \<le> 0"
    and tot: "\<And>a b. \<not> cmp a b \<le> 0 \<Longrightarrow> cmp b a \<le> 0"
    and "sorted_wrt (\<lambda>a b. cmp a b \<le> 0) xs"
  shows "sorted_wrt (\<lambda>a b. cmp a b \<le> 0) (insert_by cmp a xs)"
  using assms(3)
proof (induction xs)
  case Nil
  show ?case by simp
next
  case (Cons b bs)
  show ?case
  proof (cases "cmp a b \<le> 0")
    case True
    have "\<forall>c\<in>set bs. cmp a c \<le> 0"
      using Cons.prems True tr by auto
    with True Cons.prems show ?thesis by simp
  next
    case False
    then have "cmp b a \<le> 0" by (rule tot)
    with False Cons show ?thesis by (auto simp: set_insert_by)
  qed
qed

lemma sorted_sort_by:
  assumes "\<And>a b c. cmp a b \<le> 0 \<Longrightarrow> cmp b c \<le> 0 \<Longrightarrow> cmp a c \<le> 0"
    and "\<And>a b. \<not> cmp a b \<le> 0 \<Longrightarrow> cmp b a \<le> 0"
  shows "sorted_wrt (\<lambda>a b. cmp a b \<le> 0) (sort_by cmp xs)"
  by (induction xs) (simp_all add: sorted_insert_by[where cmp = cmp, OF assms])


section \<open>The movement loop, step by step\<close>

declare moveLoop.simps [simp del]

text \<open>
  One iteration of the movement loop, named: the participant after the decrement of its
  step counter, the cell it heads for, and the match after it has moved there.
\<close>

definition stepping :: "game \<Rightarrow> nat \<Rightarrow> player" where
  "stepping g i = (players g ! i)\<lparr> subStep := subStep (players g ! i) - 1 \<rparr>"

definition nextCell :: "player \<Rightarrow> cell" where
  "nextCell p = (fst (position p) + fst (direction p), snd (position p) + snd (direction p))"

definition blocked :: "game \<Rightarrow> nat \<Rightarrow> bool" where
  "blocked g i =
     checkCollision (g\<lparr> players := (players g)[i := stepping g i] \<rparr>)
       (fst (nextCell (players g ! i))) (snd (nextCell (players g ! i))) (pid (players g ! i))"

definition advanced :: "game \<Rightarrow> nat \<Rightarrow> game" where
  "advanced g i =
     g\<lparr> players := (players g)
          [i := (addTrailSegment
                   (setPosition (fst (nextCell (players g ! i))) (snd (nextCell (players g ! i)))
                      (stepping g i)))\<lparr> survivalTime := tickCounter g \<rparr>] \<rparr>"

lemma moveLoop_stop:
  assumes "\<not> (i < length (players g) \<and> 1 \<le> subStep (players g ! i))"
  shows "moveLoop g i = g"
  using assms by (subst moveLoop.simps) auto

lemma moveLoop_collide:
  assumes "i < length (players g)" "1 \<le> subStep (players g ! i)" "blocked g i"
  shows "moveLoop g i = g\<lparr> players := (players g)[i := eliminate (stepping g i)] \<rparr>"
  using assms
  by (subst moveLoop.simps) (simp add: Let_def blocked_def stepping_def nextCell_def)

lemma moveLoop_advance:
  assumes "i < length (players g)" "1 \<le> subStep (players g ! i)" "\<not> blocked g i"
  shows "moveLoop g i = moveLoop (advanced g i) i"
  using assms
  by (subst moveLoop.simps) (simp add: Let_def blocked_def stepping_def nextCell_def advanced_def)

text \<open>Induction over the iterations of the loop.\<close>

lemma moveLoop_induct [consumes 0, case_names stop collide advance]:
  assumes stop: "\<And>g i. \<not> (i < length (players g) \<and> 1 \<le> subStep (players g ! i)) \<Longrightarrow> P g i g"
    and collide: "\<And>g i. i < length (players g) \<Longrightarrow> 1 \<le> subStep (players g ! i) \<Longrightarrow> blocked g i
        \<Longrightarrow> P g i (g\<lparr> players := (players g)[i := eliminate (stepping g i)] \<rparr>)"
    and advance: "\<And>g i. i < length (players g) \<Longrightarrow> 1 \<le> subStep (players g ! i) \<Longrightarrow> \<not> blocked g i
        \<Longrightarrow> P (advanced g i) i (moveLoop (advanced g i) i) \<Longrightarrow> P g i (moveLoop (advanced g i) i)"
  shows "P g i (moveLoop g i)"
proof (induction g i rule: moveLoop.induct)
  case (1 g i)
  show ?case
  proof (cases "i < length (players g) \<and> 1 \<le> subStep (players g ! i)")
    case False
    from stop[OF False] moveLoop_stop[OF False] show ?thesis by simp
  next
    case True
    show ?thesis
    proof (cases "blocked g i")
      case b: True
      from True have t: "i < length (players g)" "1 \<le> subStep (players g ! i)" by simp_all
      from collide[OF t b] moveLoop_collide[OF t b] show ?thesis by simp
    next
      case b: False
      from True have t: "i < length (players g)" "1 \<le> subStep (players g ! i)" by simp_all
      have "P (advanced g i) i (moveLoop (advanced g i) i)"
        using "1.IH"[OF True refl refl refl refl] b
        by (simp add: blocked_def stepping_def nextCell_def advanced_def)
      from advance[OF t b this] moveLoop_advance[OF t b] show ?thesis by simp
    qed
  qed
qed

lemma moveLoop_fields: "moveLoop g i = g\<lparr> players := players (moveLoop g i) \<rparr>"
proof (induction g i rule: moveLoop_induct)
  case (stop g i)
  show ?case by simp
next
  case (collide g i)
  show ?case by simp
next
  case (advance g i)
  then show ?case by (simp add: advanced_def)
qed

section \<open>What a tick leaves alone\<close>

lemma movePlayer_fields: "movePlayer g i = g\<lparr> players := players (movePlayer g i) \<rparr>"
proof (cases "alive (players g ! i)")
  case True
  then show ?thesis
    using moveLoop_fields[of "g\<lparr> players := (players g)[i := (players g ! i)\<lparr> subStep := subStep (players g ! i) + gameSpeed g \<rparr>] \<rparr>" i]
    by (simp add: movePlayer_def Let_def)
next
  case False
  then show ?thesis by (simp add: movePlayer_def)
qed

lemma movePlayers_fields: "foldl movePlayer g is = g\<lparr> players := players (foldl movePlayer g is) \<rparr>"
proof (induction "is" arbitrary: g)
  case Nil
  show ?case by simp
next
  case (Cons i "is")
  have "foldl movePlayer (movePlayer g i) is
      = (movePlayer g i)\<lparr> players := players (foldl movePlayer (movePlayer g i) is) \<rparr>"
    by (rule Cons.IH)
  also have "\<dots> = g\<lparr> players := players (foldl movePlayer (movePlayer g i) is) \<rparr>"
    by (subst movePlayer_fields) simp
  finally show ?case by simp
qed

lemma updateBots_fields:
  "updateBots g = g\<lparr> botTick := botTick g + 1, players := players (updateBots g) \<rparr>"
  by (simp add: updateBots_def Let_def)

text \<open>The arena and the settings after the movement phase are those before it.\<close>

lemma movePlayers_arena:
  "arenaSize (foldl movePlayer g is) = arenaSize g"
  "gridSize (foldl movePlayer g is) = gridSize g"
  "shrinkRate (foldl movePlayer g is) = shrinkRate g"
  "mode (foldl movePlayer g is) = mode g"
  "state (foldl movePlayer g is) = state g"
  "tickCounter (foldl movePlayer g is) = tickCounter g"
  using arg_cong[OF movePlayers_fields[of g "is"], of arenaSize]
    arg_cong[OF movePlayers_fields[of g "is"], of gridSize]
    arg_cong[OF movePlayers_fields[of g "is"], of shrinkRate]
    arg_cong[OF movePlayers_fields[of g "is"], of mode]
    arg_cong[OF movePlayers_fields[of g "is"], of state]
    arg_cong[OF movePlayers_fields[of g "is"], of tickCounter]
  by simp_all

lemma updateBots_arena:
  "arenaSize (updateBots g) = arenaSize g"
  "gridSize (updateBots g) = gridSize g"
  "shrinkRate (updateBots g) = shrinkRate g"
  "mode (updateBots g) = mode g"
  "state (updateBots g) = state g"
  "tickCounter (updateBots g) = tickCounter g"
  by (simp_all add: updateBots_def Let_def)



lemma fst_endGame: "fst (endGame g) = g\<lparr> state := Finished \<rparr>"
  by (simp add: endGame_def Let_def)

text \<open>The phases of an active tick, named: the match after the bots and the movement.\<close>

definition tick_bots :: "int \<Rightarrow> game \<Rightarrow> game" where
  "tick_bots now g =
     (let g1 = g\<lparr> tickCounter := tickCounter g + 1 \<rparr>;
          g2 = (if now - lastSpeedIncreaseTime g1 \<ge> SPEED_INCREASE_INTERVAL
                then g1\<lparr> lastSpeedIncreaseTime := now,
                         gameSpeed := min MAX_SPEED (gameSpeed g1 + SPEED_INCREMENT) \<rparr>
                else g1)
      in if tickCounter g2 mod 2 = 0 then updateBots g2 else g2)"

definition tick_moved :: "int \<Rightarrow> game \<Rightarrow> game" where
  "tick_moved now g = foldl movePlayer (tick_bots now g) [0..<length (players (tick_bots now g))]"

definition tick_close :: "int \<Rightarrow> game \<Rightarrow> game" where
  "tick_close now g5 =
     (let g6 = (if now - lastBroadcastTime g5 \<ge> BROADCAST_INTERVAL
                then g5\<lparr> lastBroadcastTime := now \<rparr> else g5)
      in if length (filter alive (players g6)) \<le> winCondition g6
         then g6\<lparr> state := Finished \<rparr> else g6)"

lemma tick_phases:
  assumes "state g = Active"
  shows "tick now g = tick_close now (updateArenaShrink (tick_moved now g))"
  using assms
  unfolding tick_def tick_bots_def tick_moved_def tick_close_def fst_endGame Let_def
  by (simp only: game_state.simps if_False not_False_eq_True simp_thms)


lemma tick_bots_arena:
  "arenaSize (tick_bots now g) = arenaSize g"
  "gridSize (tick_bots now g) = gridSize g"
  "shrinkRate (tick_bots now g) = shrinkRate g"
  "mode (tick_bots now g) = mode g"
  "state (tick_bots now g) = state g"
  "tickCounter (tick_bots now g) = tickCounter g + 1"
  by (simp_all add: tick_bots_def Let_def updateBots_arena)

lemma tick_moved_arena:
  "arenaSize (tick_moved now g) = arenaSize g"
  "gridSize (tick_moved now g) = gridSize g"
  "shrinkRate (tick_moved now g) = shrinkRate g"
  "mode (tick_moved now g) = mode g"
  "state (tick_moved now g) = state g"
  "tickCounter (tick_moved now g) = tickCounter g + 1"
  by (simp_all add: tick_moved_def movePlayers_arena tick_bots_arena)

lemma tick_close_arena:
  "arenaSize (tick_close now g) = arenaSize g"
  "gridSize (tick_close now g) = gridSize g"
  "shrinkRate (tick_close now g) = shrinkRate g"
  "mode (tick_close now g) = mode g"
  "players (tick_close now g) = players g"
  by (simp_all add: tick_close_def Let_def)

lemma tick_arena:
  assumes "state g = Active"
  shows "arenaSize (tick now g) = max (arenaSize g - shrinkRate g) (real_of_int (gridSize g) * 0.25)"
    and "gridSize (tick now g) = gridSize g"
    and "shrinkRate (tick now g) = shrinkRate g"
  unfolding tick_phases[OF assms]
  by (simp_all add: tick_close_arena updateArenaShrink_def Let_def tick_moved_arena)

lemma tick_idle:
  assumes "state g \<noteq> Active"
  shows "tick now g = g"
  using assms by (simp add: tick_def)

lemma game_step_grid:
  "gridSize (game_step g e) = gridSize g" "shrinkRate (game_step g e) = shrinkRate g"
proof -
  show "gridSize (game_step g e) = gridSize g"
    by (cases e; cases "state g = Active")
      (simp_all add: tick_arena tick_idle activate_def handlePlayerInput_def removePlayer_def
        eliminatePlayer_def split: option.splits)
  show "shrinkRate (game_step g e) = shrinkRate g"
    by (cases e; cases "state g = Active")
      (simp_all add: tick_arena tick_idle activate_def handlePlayerInput_def removePlayer_def
        eliminatePlayer_def split: option.splits)
qed

lemma game_step_arena:
  "arenaSize (game_step g e) =
     (if (\<exists>now. e = Tick now) \<and> state g = Active
      then max (arenaSize g - shrinkRate g) (real_of_int (gridSize g) * 0.25)
      else arenaSize g)"
  by (cases e; cases "state g = Active")
    (simp_all add: tick_arena tick_idle activate_def handlePlayerInput_def removePlayer_def
      eliminatePlayer_def split: option.splits)

lemma Game_new_arena:
  "gridSize (Game_new i ps m) = mode_gridSize m"
  "arenaSize (Game_new i ps m) = real_of_int (mode_gridSize m)"
  "0 < shrinkRate (Game_new i ps m)"
  "state (Game_new i ps m) = Waiting"
  "mode (Game_new i ps m) = m"
  by (simp_all add: Game_new_def initializePlayerPositions_def)


section \<open>What a tick does to a participant\<close>

text \<open>
  A participant is well-formed when its trail ends in its position and its heading is
  one of the four unit headings.
\<close>

definition headings :: "cell list" where
  "headings = [(0, - 1), (0, 1), (- 1, 0), (1, 0)]"

definition trail_ok :: "player \<Rightarrow> bool" where
  "trail_ok p \<longleftrightarrow> trail p \<noteq> [] \<and> last (trail p) = position p \<and> direction p \<in> set headings"

text \<open>
  How the movement phase of a tick may change a participant: identity and heading stay,
  an eliminated participant is left exactly as it is, nobody comes back to life, the
  trail only grows at its end, and a well-formed participant stays well-formed.
\<close>

definition moved :: "player \<Rightarrow> player \<Rightarrow> bool" where
  "moved p p' \<longleftrightarrow>
     pid p' = pid p \<and> isBot p' = isBot p \<and> direction p' = direction p
     \<and> (\<not> alive p \<longrightarrow> p' = p)
     \<and> (alive p' \<longrightarrow> alive p)
     \<and> take (length (trail p)) (trail p') = trail p
     \<and> (trail_ok p \<longrightarrow> trail_ok p')"

lemma moved_refl: "moved p p"
  by (simp add: moved_def)

lemma moved_trans:
  assumes "moved p q" "moved q r"
  shows "moved p r"
proof -
  have pq: "pid q = pid p" "isBot q = isBot p" "direction q = direction p"
    "\<not> alive p \<Longrightarrow> q = p" "alive q \<Longrightarrow> alive p"
    "take (length (trail p)) (trail q) = trail p" "trail_ok p \<Longrightarrow> trail_ok q"
    using assms(1) by (simp_all add: moved_def)
  have qr: "pid r = pid q" "isBot r = isBot q" "direction r = direction q"
    "\<not> alive q \<Longrightarrow> r = q" "alive r \<Longrightarrow> alive q"
    "take (length (trail q)) (trail r) = trail q" "trail_ok q \<Longrightarrow> trail_ok r"
    using assms(2) by (simp_all add: moved_def)
  have le: "length (trail p) \<le> length (trail q)"
    using arg_cong[OF pq(6), of length] by simp
  have "take (length (trail p)) (trail r) = take (length (trail p)) (take (length (trail q)) (trail r))"
    using le by (simp add: min_def)
  then have t: "take (length (trail p)) (trail r) = trail p"
    by (simp only: qr(6) pq(6))
  have d: "r = p" if "\<not> alive p"
  proof -
    from that have "q = p" by (rule pq(4))
    with that qr(4) show ?thesis by simp
  qed
  show ?thesis
    unfolding moved_def
  proof (intro conjI impI)
    show "pid r = pid p" by (simp only: qr(1) pq(1))
    show "isBot r = isBot p" by (simp only: qr(2) pq(2))
    show "direction r = direction p" by (simp only: qr(3) pq(3))
    show "r = p" if "\<not> alive p" using that by (rule d)
    show "alive p" if "alive r" using that qr(5) pq(5) by blast
    show "take (length (trail p)) (trail r) = trail p" by (rule t)
    show "trail_ok r" if "trail_ok p" using that qr(7) pq(7) by blast
  qed
qed

lemma moved_subStep: "alive p \<Longrightarrow> moved p (p\<lparr> subStep := s \<rparr>)"
  by (auto simp: moved_def trail_ok_def)

lemma moved_eliminate: "alive p \<Longrightarrow> moved p (eliminate p)"
  by (auto simp: moved_def trail_ok_def eliminate_def)

lemma moved_advance:
  "alive p \<Longrightarrow> moved p ((addTrailSegment (setPosition x y p))\<lparr> survivalTime := t \<rparr>)"
  by (auto simp: moved_def trail_ok_def addTrailSegment_def setPosition_def)

lemma moved_stepping:
  assumes "alive (players g ! i)"
  shows "moved (players g ! i) (eliminate (stepping g i))"
    and "moved (players g ! i)
           ((addTrailSegment (setPosition x y (stepping g i)))\<lparr> survivalTime := t \<rparr>)"
proof -
  have a: "moved (players g ! i) (stepping g i)" "alive (stepping g i)"
    using assms by (simp_all add: stepping_def moved_subStep)
  show "moved (players g ! i) (eliminate (stepping g i))"
    using moved_trans[OF a(1) moved_eliminate[OF a(2)]] .
  show "moved (players g ! i)
           ((addTrailSegment (setPosition x y (stepping g i)))\<lparr> survivalTime := t \<rparr>)"
    using moved_trans[OF a(1) moved_advance[OF a(2)]] .
qed

lemma moveLoop_players:
  "length (players (moveLoop g i)) = length (players g)
   \<and> (\<forall>j. j \<noteq> i \<longrightarrow> players (moveLoop g i) ! j = players g ! j)
   \<and> (alive (players g ! i) \<longrightarrow> moved (players g ! i) (players (moveLoop g i) ! i))"
proof (induction g i rule: moveLoop_induct)
  case (stop g i)
  show ?case by (simp add: moved_refl)
next
  case (collide g i)
  then show ?case
    using moved_stepping(1)[of g i] by simp
next
  case (advance g i)
  let ?a = "advanced g i"
  let ?f = "moveLoop ?a i"
  have len: "length (players ?a) = length (players g)"
    by (simp add: advanced_def)
  have other: "players ?a ! j = players g ! j" if "j \<noteq> i" for j
    using that by (simp add: advanced_def)
  have self: "moved (players g ! i) (players ?f ! i)" if al: "alive (players g ! i)"
  proof -
    have m: "moved (players g ! i) (players ?a ! i)"
      using moved_stepping(2)[OF al] advance(1) by (simp add: advanced_def)
    have "alive (players ?a ! i)"
      using al advance(1) by (simp add: advanced_def stepping_def addTrailSegment_def setPosition_def)
    with advance(4) have "moved (players ?a ! i) (players ?f ! i)" by simp
    with m show ?thesis by (rule moved_trans)
  qed
  show ?case
    using advance(4) len other self by simp
qed

lemma movePlayer_players:
  "length (players (movePlayer g i)) = length (players g)
   \<and> (\<forall>j. j \<noteq> i \<longrightarrow> players (movePlayer g i) ! j = players g ! j)
   \<and> moved (players g ! i) (players (movePlayer g i) ! i)"
proof (cases "alive (players g ! i) \<and> i < length (players g)")
  case False
  show ?thesis
  proof (cases "alive (players g ! i)")
    case dead: False
    then show ?thesis by (simp add: movePlayer_def moved_refl)
  next
    case True
    with False have "\<not> i < length (players g)" by simp
    then have "movePlayer g i = g"
      using True by (simp add: movePlayer_def Let_def moveLoop_stop list_update_beyond)
    then show ?thesis by (simp add: moved_refl)
  qed
next
  case True
  let ?p = "(players g ! i)\<lparr> subStep := subStep (players g ! i) + gameSpeed g \<rparr>"
  let ?g = "g\<lparr> players := (players g)[i := ?p] \<rparr>"
  have eq: "movePlayer g i = moveLoop ?g i"
    using True by (simp add: movePlayer_def Let_def)
  have p: "players ?g ! i = ?p" "alive ?p" "moved (players g ! i) ?p"
    using True by (simp_all add: moved_subStep)
  note l = moveLoop_players[of ?g i]
  have "moved ?p (players (moveLoop ?g i) ! i)"
    using l p(1,2) by simp
  with p(3) have "moved (players g ! i) (players (moveLoop ?g i) ! i)"
    by (rule moved_trans)
  then show ?thesis
    using l unfolding eq by simp
qed

lemma movePlayers_players:
  "length (players (foldl movePlayer g is)) = length (players g)
   \<and> (\<forall>j. moved (players g ! j) (players (foldl movePlayer g is) ! j))"
proof (induction "is" arbitrary: g)
  case Nil
  show ?case by (simp add: moved_refl)
next
  case (Cons i "is")
  note s = movePlayer_players[of g i]
  note r = Cons.IH[of "movePlayer g i"]
  have "moved (players g ! j) (players (foldl movePlayer (movePlayer g i) is) ! j)" for j
  proof -
    have "moved (players g ! j) (players (movePlayer g i) ! j)"
      using s by (cases "j = i") (simp_all add: moved_refl)
    moreover have "moved (players (movePlayer g i) ! j) (players (foldl movePlayer (movePlayer g i) is) ! j)"
      using r by simp
    ultimately show ?thesis by (rule moved_trans)
  qed
  then show ?case
    using s r by simp
qed

text \<open>How a bot decision may change a participant: only the heading, and never to the reverse.\<close>

definition steered :: "player \<Rightarrow> player \<Rightarrow> bool" where
  "steered p p' \<longleftrightarrow>
     p' = p
     \<or> (alive p \<and> isBot p \<and> (\<exists>d \<in> set headings. p' = p\<lparr> direction := d \<rparr>
            \<and> (fst (direction p) + fst d \<noteq> 0 \<or> snd (direction p) + snd d \<noteq> 0)))"

lemma setDirection_steered:
  assumes "alive p" "(dx, dy) \<in> set headings" "isBot p"
  shows "steered p (setDirection dx dy p)"
  using assms unfolding steered_def setDirection_def
  by (cases "fst (direction p) + dx \<noteq> 0 \<or> snd (direction p) + dy \<noteq> 0") force+

lemma calculateBestDirection_heading:
  assumes "calculateBestDirection g p = Some d"
  shows "d \<in> set headings"
proof -
  from assms obtain best rest where b: "scoredDirections g p = best # rest" "d = fst best"
    by (auto simp: calculateBestDirection_def split: list.splits if_splits)
  have "best \<in> set (scoredDirections g p)"
    using b by simp
  then have "fst best \<in> set (validDirections p)"
    by (auto simp: scoredDirections_def set_sort_by)
  moreover have "set (validDirections p) \<subseteq> set headings"
    unfolding validDirections_def headings_def by (rule filter_is_subset)
  ultimately show ?thesis
    using b by blast
qed

lemma botThink_steered: "steered p (botThink g p)"
proof (cases "botThink g p = p")
  case True
  then show ?thesis by (simp add: steered_def)
next
  case False
  then obtain d where d: "alive p" "calculateBestDirection g p = Some d"
      "botThink g p = setDirection (fst d) (snd d) p" "isBot p"
    by (auto simp: botThink_def Let_def split: option.splits if_splits)
  have "(fst d, snd d) \<in> set headings"
    using calculateBestDirection_heading[OF d(2)] by simp
  from setDirection_steered[OF d(1) this d(4)] d(3) show ?thesis by simp
qed

lemma updateBots_players:
  "length (players (updateBots g)) = length (players g)"
  "j < length (players g) \<Longrightarrow> steered (players g ! j) (players (updateBots g) ! j)"
  by (simp_all add: updateBots_def Let_def botThink_steered)

section \<open>What an event does to a participant\<close>

text \<open>How one event may change a participant.\<close>

definition evolved :: "player \<Rightarrow> player \<Rightarrow> bool" where
  "evolved p p' \<longleftrightarrow>
     pid p' = pid p \<and> isBot p' = isBot p
     \<and> (\<not> alive p \<longrightarrow> p' = p)
     \<and> (alive p' \<longrightarrow> alive p)
     \<and> take (length (trail p)) (trail p') = trail p
     \<and> (trail_ok p \<longrightarrow> trail_ok p')
     \<and> (direction p' \<noteq> direction p \<longrightarrow>
          direction p' \<in> set headings
          \<and> (fst (direction p) + fst (direction p') \<noteq> 0 \<or> snd (direction p) + snd (direction p') \<noteq> 0))"

lemma evolved_refl: "evolved p p"
  by (simp add: evolved_def)

lemma steered_moved_evolved:
  assumes "steered p q" "moved q r"
  shows "evolved p r"
proof (cases "q = p")
  case True
  with assms(2) show ?thesis by (auto simp: evolved_def moved_def)
next
  case False
  with assms(1) obtain d where d: "alive p" "d \<in> set headings" "q = p\<lparr> direction := d \<rparr>"
      "fst (direction p) + fst d \<noteq> 0 \<or> snd (direction p) + snd d \<noteq> 0"
    by (auto simp: steered_def)
  have q: "pid q = pid p" "isBot q = isBot p" "trail q = trail p" "alive q" "direction q = d"
    "trail_ok p \<Longrightarrow> trail_ok q"
    using d by (simp_all add: trail_ok_def)
  have r: "pid r = pid q" "isBot r = isBot q" "direction r = direction q" "alive r \<Longrightarrow> alive q"
    "take (length (trail q)) (trail r) = trail q" "trail_ok q \<Longrightarrow> trail_ok r"
    using assms(2) by (simp_all add: moved_def)
  show ?thesis
    unfolding evolved_def using q r d by auto
qed

lemma modify_player_nth:
  "length (modify_player k f ps) = length ps
   \<and> (\<forall>j<length ps. modify_player k f ps ! j = ps ! j
        \<or> (get_player k ps = Some (ps ! j) \<and> modify_player k f ps ! j = f (ps ! j)))"
proof (induction ps)
  case Nil
  show ?case by simp
next
  case (Cons q qs)
  show ?case
  proof (cases "pid q = k")
    case True
    then show ?thesis by (auto simp: nth_Cons')
  next
    case False
    with Cons show ?thesis by (auto simp: nth_Cons')
  qed
qed

lemma get_player_pid: "get_player k ps = Some p \<Longrightarrow> pid p = k"
  by (induction ps) (auto split: if_splits)

lemma setDirection_evolved:
  assumes "(dx, dy) \<in> set headings" "alive p"
  shows "evolved p ((setDirection dx dy p)\<lparr> lastInputTime := t \<rparr>)"
  using assms by (auto simp: evolved_def setDirection_def trail_ok_def)

lemma applyDirection_evolved:
  assumes "alive p"
  shows "evolved p ((applyDirection dir p)\<lparr> lastInputTime := t \<rparr>)"
proof -
  have "applyDirection dir p = p \<or> (\<exists>d \<in> set headings. applyDirection dir p = setDirection (fst d) (snd d) p)"
    by (auto simp: applyDirection_def headings_def)
  then show ?thesis
  proof
    assume "applyDirection dir p = p"
    then show ?thesis using assms by (auto simp: evolved_def trail_ok_def)
  next
    assume "\<exists>d \<in> set headings. applyDirection dir p = setDirection (fst d) (snd d) p"
    then obtain d where "d \<in> set headings" "applyDirection dir p = setDirection (fst d) (snd d) p"
      by blast
    then show ?thesis
      using setDirection_evolved[of "fst d" "snd d" p t] assms by simp
  qed
qed

lemma eliminate_evolved: "alive p \<Longrightarrow> evolved p (eliminate p)"
  by (auto simp: evolved_def eliminate_def trail_ok_def)

lemma tick_players:
  assumes "state g = Active"
  shows "players (tick now g) = players (tick_moved now g)"
  unfolding tick_phases[OF assms]
  by (simp add: tick_close_arena updateArenaShrink_def Let_def)

lemma tick_bots_players:
  "length (players (tick_bots now g)) = length (players g)"
  "j < length (players g) \<Longrightarrow> steered (players g ! j) (players (tick_bots now g) ! j)"
proof -
  let ?g1 = "g\<lparr> tickCounter := tickCounter g + 1 \<rparr>"
  define h where "h = (if now - lastSpeedIncreaseTime ?g1 \<ge> SPEED_INCREASE_INTERVAL
                then ?g1\<lparr> lastSpeedIncreaseTime := now,
                         gameSpeed := min MAX_SPEED (gameSpeed ?g1 + SPEED_INCREMENT) \<rparr>
                else ?g1)"
  have "players h = players g"
    by (simp add: h_def)
  moreover have "tick_bots now g = (if tickCounter h mod 2 = 0 then updateBots h else h)"
    unfolding tick_bots_def Let_def h_def ..
  ultimately have h: "players h = players g" "tick_bots now g = updateBots h \<or> tick_bots now g = h"
    by presburger+
  show "length (players (tick_bots now g)) = length (players g)"
    using h updateBots_players(1)[of h] by auto
  show "steered (players g ! j) (players (tick_bots now g) ! j)" if "j < length (players g)"
    using h that updateBots_players(2)[of j h] by (auto simp: steered_def)
qed


lemma tick_evolved:
  "length (players (tick now g)) = length (players g)"
  "j < length (players g) \<Longrightarrow> evolved (players g ! j) (players (tick now g) ! j)"
proof -
  let ?b = "tick_bots now g"
  have m: "length (players (tick_moved now g)) = length (players ?b)"
    "moved (players ?b ! j) (players (tick_moved now g) ! j)"
    using movePlayers_players[of ?b "[0..<length (players ?b)]"] by (simp_all add: tick_moved_def)
  show "length (players (tick now g)) = length (players g)"
    by (cases "state g = Active") (simp_all add: tick_idle tick_players m tick_bots_players)
  show "evolved (players g ! j) (players (tick now g) ! j)" if "j < length (players g)"
  proof (cases "state g = Active")
    case True
    from steered_moved_evolved[OF tick_bots_players(2)[OF that] m(2)] show ?thesis
      by (simp add: tick_players[OF True])
  next
    case False
    then show ?thesis by (simp add: tick_idle evolved_refl)
  qed
qed

lemma handlePlayerInput_evolved:
  "length (players (handlePlayerInput g k dir now)) = length (players g)"
  "j < length (players g) \<Longrightarrow> evolved (players g ! j) (players (handlePlayerInput g k dir now) ! j)"
proof -
  let ?f = "\<lambda>p. (applyDirection dir p)\<lparr> lastInputTime := now \<rparr>"
  note m = modify_player_nth[of k ?f "players g"]
  show "length (players (handlePlayerInput g k dir now)) = length (players g)"
    using m by (simp add: handlePlayerInput_def split: option.splits)
  show "evolved (players g ! j) (players (handlePlayerInput g k dir now) ! j)" if j: "j < length (players g)"
  proof (cases "get_player k (players g)")
    case None
    then show ?thesis by (simp add: handlePlayerInput_def evolved_refl)
  next
    case (Some pl)
    show ?thesis
    proof (cases "\<not> alive pl \<or> isBot pl")
      case True
      with Some show ?thesis by (simp add: handlePlayerInput_def evolved_refl)
    next
      case False
      then have eq: "players (handlePlayerInput g k dir now) = modify_player k ?f (players g)"
        using Some by (simp add: handlePlayerInput_def)
      from m j have "modify_player k ?f (players g) ! j = players g ! j
          \<or> (players g ! j = pl \<and> modify_player k ?f (players g) ! j = ?f pl)"
        using Some by auto
      then show ?thesis
        unfolding eq using False applyDirection_evolved[where p=pl and dir=dir and t=now] by (auto simp: evolved_refl)
    qed
  qed
qed

lemma removePlayer_evolved:
  "length (players (removePlayer g k)) = length (players g)"
  "j < length (players g) \<Longrightarrow> evolved (players g ! j) (players (removePlayer g k) ! j)"
proof -
  note m = modify_player_nth[of k eliminate "players g"]
  show "length (players (removePlayer g k)) = length (players g)"
    using m by (simp add: removePlayer_def eliminatePlayer_def split: option.splits)
  show "evolved (players g ! j) (players (removePlayer g k) ! j)" if j: "j < length (players g)"
  proof (cases "get_player k (players g)")
    case None
    then show ?thesis by (simp add: removePlayer_def evolved_refl)
  next
    case (Some pl)
    show ?thesis
    proof (cases "alive pl")
      case False
      with Some show ?thesis by (simp add: removePlayer_def evolved_refl)
    next
      case True
      then have eq: "players (removePlayer g k) = modify_player k eliminate (players g)"
        using Some by (simp add: removePlayer_def eliminatePlayer_def)
      from m j have "modify_player k eliminate (players g) ! j = players g ! j
          \<or> (players g ! j = pl \<and> modify_player k eliminate (players g) ! j = eliminate pl)"
        using Some by auto
      then show ?thesis
        unfolding eq using True eliminate_evolved[of pl] by (auto simp: evolved_refl)
    qed
  qed
qed

lemma game_step_evolved:
  "length (players (game_step g e)) = length (players g)"
  "j < length (players g) \<Longrightarrow> evolved (players g ! j) (players (game_step g e) ! j)"
  by (cases e; simp add: tick_evolved handlePlayerInput_evolved removePlayer_evolved
        activate_def evolved_refl)+

lemma game_run_evolved:
  "length (players (game_run g es)) = length (players g)
   \<and> (\<forall>j<length (players g).
        pid (players (game_run g es) ! j) = pid (players g ! j)
        \<and> (\<not> alive (players g ! j) \<longrightarrow> players (game_run g es) ! j = players g ! j)
        \<and> (trail_ok (players g ! j) \<longrightarrow> trail_ok (players (game_run g es) ! j)))"
proof (induction es arbitrary: g)
  case Nil
  show ?case by (simp add: game_run_def)
next
  case (Cons e es)
  let ?h = "game_step g e"
  have run: "game_run g (e # es) = game_run ?h es"
    by (simp add: game_run_def)
  have len: "length (players ?h) = length (players g)"
    by (rule game_step_evolved(1))
  have step: "pid (players ?h ! j) = pid (players g ! j)"
      "\<not> alive (players g ! j) \<Longrightarrow> players ?h ! j = players g ! j"
      "trail_ok (players g ! j) \<Longrightarrow> trail_ok (players ?h ! j)"
    if "j < length (players g)" for j
    using game_step_evolved(2)[OF that, of e] by (simp_all add: evolved_def)
  show ?case
    unfolding run using Cons.IH[of ?h] len step by auto
qed

lemma checkCollision_trail:
  assumes "p \<in> set (players g)" "c \<in> set (trail p)"
  shows "checkCollision g (fst c) (snd c) k"
  using assms by (auto simp: checkCollision_def Let_def list_ex_iff)

lemma get_player_modify:
  assumes "\<And>q. pid (f q) = pid q"
  shows "get_player k (modify_player k f ps) = map_option f (get_player k ps)"
  by (induction ps) (auto simp: assms)


section \<open>Termination: rankings and prize shares\<close>

definition rankLe :: "player \<Rightarrow> player \<Rightarrow> bool" where
  "rankLe a b \<longleftrightarrow> rankCompare a b \<le> 0"

lemma rankLe_iff:
  "rankLe a b \<longleftrightarrow> (alive a \<and> \<not> alive b) \<or> (alive a = alive b \<and> survivalTime b \<le> survivalTime a)"
  by (auto simp: rankLe_def rankCompare_def)

lemma rankLe_trans: "rankLe a b \<Longrightarrow> rankLe b c \<Longrightarrow> rankLe a c"
  by (auto simp: rankLe_iff)

lemma rankLe_total: "\<not> rankLe a b \<Longrightarrow> rankLe b a"
  by (auto simp: rankLe_iff)

lemma sorted_insert_rank:
  "sorted_wrt rankLe xs \<Longrightarrow> sorted_wrt rankLe (insert_by rankCompare a xs)"
proof (induction xs)
  case Nil
  show ?case by simp
next
  case (Cons b bs)
  show ?case
  proof (cases "rankCompare a b \<le> 0")
    case True
    then have ab: "rankLe a b" by (simp add: rankLe_def)
    have "\<forall>c\<in>set bs. rankLe a c"
      using Cons.prems ab by (auto intro: rankLe_trans)
    with ab Cons.prems True show ?thesis by simp
  next
    case False
    then have "rankLe b a" using rankLe_total[of a b] by (simp add: rankLe_def)
    with False Cons show ?thesis by (auto simp: set_insert_by)
  qed
qed

lemma sorted_sort_rank: "sorted_wrt rankLe (sort_by rankCompare xs)"
  by (induction xs) (auto intro: sorted_insert_rank)

lemma sorted_rankedPlayers: "sorted_wrt rankLe (rankedPlayers g)"
  unfolding rankedPlayers_def by (rule sorted_sort_rank)

lemma length_rankedPlayers: "length (rankedPlayers g) = length (players g)"
  by (simp add: rankedPlayers_def length_sort_by)

lemma snd_endGame:
  "snd (endGame g) = map (\<lambda>i. rankingEntry g i (rankedPlayers g ! i)) [0..<length (players g)]"
proof -
  have "map (\<lambda>(i, x). f i x) (zip [0..<length xs] xs) = map (\<lambda>i. f i (xs ! i)) [0..<length xs]"
    for f :: "nat \<Rightarrow> player \<Rightarrow> ranking" and xs
    by (rule nth_equalityI) simp_all
  then show ?thesis
    by (simp add: endGame_def Let_def length_rankedPlayers)
qed

lemma rank_endGame: "map r_rank (snd (endGame g)) = [1..<Suc (length (players g))]"
proof -
  have "map r_rank (snd (endGame g)) = map Suc [0..<length (players g)]"
    by (simp add: snd_endGame rankingEntry_def)
  then show ?thesis
    by (simp only: map_Suc_upt One_nat_def)
qed

lemma prize_endGame: "map r_prize (snd (endGame g)) = map (calculatePrize g) [0..<length (players g)]"
  by (simp add: snd_endGame rankingEntry_def)


lemma calculatePrize_cases:
  "calculatePrize g i =
     (if mode_players (mode g) \<le> 2 then (if i = 0 then prize (mode g) else 0)
      else if mode_players (mode g) \<le> 4 then
        (if i = 0 then double_mul (prize (mode g)) (double_round 0.75)
         else if i = 1 then double_mul (prize (mode g)) (double_round 0.25) else 0)
      else (if i = 0 then double_mul (prize (mode g)) (double_round 0.694)
            else if i = 1 then double_mul (prize (mode g)) (double_round 0.208)
            else if i = 2 then double_mul (prize (mode g)) (double_round 0.098) else 0))"
  by (cases i rule: nat.exhaust; cases "i - 1"; cases "i - 2") (auto simp: calculatePrize_def Let_def)

lemma rankedPlayers_order:
  assumes "i < j" "j < length (players g)"
  shows "rankLe (rankedPlayers g ! i) (rankedPlayers g ! j)"
  using sorted_rankedPlayers[of g] assms
  by (simp add: sorted_wrt_iff_nth_less length_rankedPlayers)

subsection \<open>Totals of the shares\<close>

text \<open>
  The server never adds the shares up. Two totals are considered: the exact sum of the
  emitted amounts, and \<open>double_sum\<close>, the running sum of doubles from the left starting
  at 0, which is what adding them up in the same arithmetic gives.
\<close>

definition double_sum :: "real list \<Rightarrow> real" where
  "double_sum xs = foldl double_add 0 xs"

lemmas double_eval =
  double_round_def double_mul_def double_add_def round_half_even_def pow2_def binade.simps Let_def

lemma shares_split:
  assumes "\<And>i. k \<le> i \<Longrightarrow> f i = (0::real)"
  shows "map f [0..<n] = take n (map f [0..<k]) @ replicate (n - k) 0"
proof (rule nth_equalityI)
  show "length (map f [0..<n]) = length (take n (map f [0..<k]) @ replicate (n - k) 0)"
    by simp
next
  fix i
  assume "i < length (map f [0..<n])"
  then have i: "i < n" by simp
  show "map f [0..<n] ! i = (take n (map f [0..<k]) @ replicate (n - k) 0) ! i"
  proof (cases "i < k")
    case True
    with i show ?thesis by (simp add: nth_append)
  next
    case False
    with i assms[of i] show ?thesis by (simp add: nth_append min_def)
  qed
qed

lemma double_add_zeros:
  assumes "double_round a = a"
  shows "foldl double_add a (replicate m 0) = a"
  by (induction m) (simp_all add: double_add_def assms)

lemma double_sum_zeros:
  assumes "double_round (double_sum xs) = double_sum xs"
  shows "double_sum (xs @ replicate m 0) = double_sum xs"
  using double_add_zeros[OF assms, of m] by (simp add: double_sum_def)

lemma configured_modes:
  assumes "m \<in> snd ` set GAME_MODES"
  shows "m = snd (GAME_MODES ! 0) \<or> m = snd (GAME_MODES ! 1)
       \<or> m = snd (GAME_MODES ! 2) \<or> m = snd (GAME_MODES ! 3)"
  using assms by (auto simp: GAME_MODES_def)

text \<open>The four prizes and the shares paid from them, as the doubles they are.\<close>

lemma duel_amounts:
  assumes "mode g = snd (GAME_MODES ! 0)"
  shows "mode_players (mode g) = 2"
    and "prize (mode g) = 8106479329266893 / 9007199254740992"
    and "calculatePrize g 0 = 8106479329266893 / 9007199254740992"
    and "\<And>i. 1 \<le> i \<Longrightarrow> calculatePrize g i = 0"
  by (simp_all add: assms calculatePrize_def GAME_MODES_def double_eval)

lemma squad_amounts:
  assumes "mode g = snd (GAME_MODES ! 1)"
  shows "mode_players (mode g) = 4"
    and "prize (mode g) = 8106479329266893 / 4503599627370496"
    and "calculatePrize g 0 = 3039929748475085 / 2251799813685248"
    and "calculatePrize g (Suc 0) = 8106479329266893 / 18014398509481984"
    and "\<And>i. 2 \<le> i \<Longrightarrow> calculatePrize g i = 0"
  by (simp_all add: assms calculatePrize_def GAME_MODES_def double_eval)

lemma ranked_amounts:
  assumes "mode g = snd (GAME_MODES ! 2)"
  shows "mode_players (mode g) = 8"
    and "prize (mode g) = 8106479329266893 / 1125899906842624"
    and "calculatePrize g 0 = 5625896654511223 / 1125899906842624"
    and "calculatePrize g (Suc 0) = 6744590801950055 / 4503599627370496"
    and "calculatePrize g 2 = 1588869948536311 / 2251799813685248"
    and "\<And>i. 3 \<le> i \<Longrightarrow> calculatePrize g i = 0"
  by (simp_all add: assms calculatePrize_def GAME_MODES_def double_eval)

lemma arena_amounts:
  assumes "mode g = snd (GAME_MODES ! 3)"
  shows "mode_players (mode g) = 10"
    and "prize (mode g) = 9"
    and "calculatePrize g 0 = 7032370818139029 / 1125899906842624"
    and "calculatePrize g (Suc 0) = 131730289100587 / 70368744177664"
    and "calculatePrize g 2 = 7944349742681555 / 9007199254740992"
    and "\<And>i. 3 \<le> i \<Longrightarrow> calculatePrize g i = 0"
  by (simp_all add: assms calculatePrize_def GAME_MODES_def double_eval)


lemma upt_small:
  "[0..<1] = [0::nat]" "[0..<2] = [0::nat, 1]" "[0..<3] = [0::nat, 1, 2]"
  by (simp_all add: upt_rec)

lemma totals_split:
  assumes z: "\<And>i. k \<le> i \<Longrightarrow> f i = (0::real)" and n: "k \<le> n"
    and fx: "double_round (double_sum (map f [0..<k])) = double_sum (map f [0..<k])"
  shows "sum_list (map f [0..<n]) = sum_list (map f [0..<k])"
    and "double_sum (map f [0..<n]) = double_sum (map f [0..<k])"
proof -
  have sp: "map f [0..<n] = map f [0..<k] @ replicate (n - k) 0"
    using shares_split[of k f n] z n by simp
  show "sum_list (map f [0..<n]) = sum_list (map f [0..<k])"
    unfolding sp by (simp add: sum_list_replicate)
  show "double_sum (map f [0..<n]) = double_sum (map f [0..<k])"
    unfolding sp by (rule double_sum_zeros[OF fx])
qed


lemma duel_totals:
  assumes "mode g = snd (GAME_MODES ! 0)"
  shows "double_sum (map (calculatePrize g) [0..<n]) \<le> prize (mode g)"
    and "1 \<le> n \<Longrightarrow> sum_list (map (calculatePrize g) [0..<n]) = prize (mode g) + 0"
    and "1 \<le> n \<Longrightarrow> double_sum (map (calculatePrize g) [0..<n]) = prize (mode g) - 0"
proof -
  note a = duel_amounts[OF assms]
  have l: "map (calculatePrize g) [0..<1] =
      [8106479329266893 / 9007199254740992]"
    by (simp add: upt_small a)
  have d: "double_sum (map (calculatePrize g) [0..<1]) = 8106479329266893 / 9007199254740992"
    unfolding l by (simp add: double_sum_def double_eval)
  have fx: "double_round (double_sum (map (calculatePrize g) [0..<1]))
      = double_sum (map (calculatePrize g) [0..<1])"
    unfolding d by (simp add: double_eval)
  have t: "sum_list (map (calculatePrize g) [0..<n]) = sum_list (map (calculatePrize g) [0..<1])"
    "double_sum (map (calculatePrize g) [0..<n]) = double_sum (map (calculatePrize g) [0..<1])"
    if "1 \<le> n"
    using totals_split[where k = 1 and f = "calculatePrize g" and n = n] a(4) that fx
    by blast+
  show "sum_list (map (calculatePrize g) [0..<n]) = prize (mode g) + 0" if "1 \<le> n"
    unfolding t(1)[OF that] l a(2) by simp
  show e: "double_sum (map (calculatePrize g) [0..<n]) = prize (mode g) - 0" if "1 \<le> n"
    unfolding t(2)[OF that] d a(2) by simp
  consider "n = 0" | "1 \<le> n" by linarith
  then show "double_sum (map (calculatePrize g) [0..<n]) \<le> prize (mode g)"
  proof cases
    case 1
    then show ?thesis by (simp add: upt_small a double_sum_def double_eval)
  next
    case 2
    then show ?thesis unfolding e[OF 2] by simp
  qed
qed

lemma squad_totals:
  assumes "mode g = snd (GAME_MODES ! 1)"
  shows "double_sum (map (calculatePrize g) [0..<n]) \<le> prize (mode g)"
    and "2 \<le> n \<Longrightarrow> sum_list (map (calculatePrize g) [0..<n]) = prize (mode g) + 1 / 2 ^ 54"
    and "2 \<le> n \<Longrightarrow> double_sum (map (calculatePrize g) [0..<n]) = prize (mode g) - 0"
proof -
  note a = squad_amounts[OF assms]
  have l: "map (calculatePrize g) [0..<2] =
      [3039929748475085 / 2251799813685248,
       8106479329266893 / 18014398509481984]"
    by (simp add: upt_small a)
  have d: "double_sum (map (calculatePrize g) [0..<2]) = 8106479329266893 / 4503599627370496"
    unfolding l by (simp add: double_sum_def double_eval)
  have fx: "double_round (double_sum (map (calculatePrize g) [0..<2]))
      = double_sum (map (calculatePrize g) [0..<2])"
    unfolding d by (simp add: double_eval)
  have t: "sum_list (map (calculatePrize g) [0..<n]) = sum_list (map (calculatePrize g) [0..<2])"
    "double_sum (map (calculatePrize g) [0..<n]) = double_sum (map (calculatePrize g) [0..<2])"
    if "2 \<le> n"
    using totals_split[where k = 2 and f = "calculatePrize g" and n = n] a(5) that fx
    by blast+
  show "sum_list (map (calculatePrize g) [0..<n]) = prize (mode g) + 1 / 2 ^ 54" if "2 \<le> n"
    unfolding t(1)[OF that] l a(2) by simp
  show e: "double_sum (map (calculatePrize g) [0..<n]) = prize (mode g) - 0" if "2 \<le> n"
    unfolding t(2)[OF that] d a(2) by simp
  consider "n = 0" | "n = 1" | "2 \<le> n" by linarith
  then show "double_sum (map (calculatePrize g) [0..<n]) \<le> prize (mode g)"
  proof cases
    case 1
    then show ?thesis by (simp add: upt_small a double_sum_def double_eval)
  next
    case 2
    then show ?thesis by (simp add: upt_small a double_sum_def double_eval)
  next
    case 3
    then show ?thesis unfolding e[OF 3] by simp
  qed
qed

lemma ranked_totals:
  assumes "mode g = snd (GAME_MODES ! 2)"
  shows "double_sum (map (calculatePrize g) [0..<n]) \<le> prize (mode g)"
    and "3 \<le> n \<Longrightarrow> sum_list (map (calculatePrize g) [0..<n]) = prize (mode g) - 3 / 2 ^ 52"
    and "3 \<le> n \<Longrightarrow> double_sum (map (calculatePrize g) [0..<n]) = prize (mode g) - 1 / 2 ^ 50"
proof -
  note a = ranked_amounts[OF assms]
  have l: "map (calculatePrize g) [0..<3] =
      [5625896654511223 / 1125899906842624,
       6744590801950055 / 4503599627370496,
       1588869948536311 / 2251799813685248]"
    by (simp add: upt_small a)
  have d: "double_sum (map (calculatePrize g) [0..<3]) = 2026619832316723 / 281474976710656"
    unfolding l by (simp add: double_sum_def double_eval)
  have fx: "double_round (double_sum (map (calculatePrize g) [0..<3]))
      = double_sum (map (calculatePrize g) [0..<3])"
    unfolding d by (simp add: double_eval)
  have t: "sum_list (map (calculatePrize g) [0..<n]) = sum_list (map (calculatePrize g) [0..<3])"
    "double_sum (map (calculatePrize g) [0..<n]) = double_sum (map (calculatePrize g) [0..<3])"
    if "3 \<le> n"
    using totals_split[where k = 3 and f = "calculatePrize g" and n = n] a(6) that fx
    by blast+
  show "sum_list (map (calculatePrize g) [0..<n]) = prize (mode g) - 3 / 2 ^ 52" if "3 \<le> n"
    unfolding t(1)[OF that] l a(2) by simp
  show e: "double_sum (map (calculatePrize g) [0..<n]) = prize (mode g) - 1 / 2 ^ 50" if "3 \<le> n"
    unfolding t(2)[OF that] d a(2) by simp
  consider "n = 0" | "n = 1" | "n = 2" | "3 \<le> n" by linarith
  then show "double_sum (map (calculatePrize g) [0..<n]) \<le> prize (mode g)"
  proof cases
    case 1
    then show ?thesis by (simp add: upt_small a double_sum_def double_eval)
  next
    case 2
    then show ?thesis by (simp add: upt_small a double_sum_def double_eval)
  next
    case 3
    then show ?thesis by (simp add: upt_small a double_sum_def double_eval)
  next
    case 4
    then show ?thesis unfolding e[OF 4] by simp
  qed
qed

lemma arena_totals:
  assumes "mode g = snd (GAME_MODES ! 3)"
  shows "double_sum (map (calculatePrize g) [0..<n]) \<le> prize (mode g)"
    and "3 \<le> n \<Longrightarrow> sum_list (map (calculatePrize g) [0..<n]) = prize (mode g) - 5 / 2 ^ 53"
    and "3 \<le> n \<Longrightarrow> double_sum (map (calculatePrize g) [0..<n]) = prize (mode g) - 1 / 2 ^ 49"
proof -
  note a = arena_amounts[OF assms]
  have l: "map (calculatePrize g) [0..<3] =
      [7032370818139029 / 1125899906842624,
       131730289100587 / 70368744177664,
       7944349742681555 / 9007199254740992]"
    by (simp add: upt_small a)
  have d: "double_sum (map (calculatePrize g) [0..<3]) = 5066549580791807 / 562949953421312"
    unfolding l by (simp add: double_sum_def double_eval)
  have fx: "double_round (double_sum (map (calculatePrize g) [0..<3]))
      = double_sum (map (calculatePrize g) [0..<3])"
    unfolding d by (simp add: double_eval)
  have t: "sum_list (map (calculatePrize g) [0..<n]) = sum_list (map (calculatePrize g) [0..<3])"
    "double_sum (map (calculatePrize g) [0..<n]) = double_sum (map (calculatePrize g) [0..<3])"
    if "3 \<le> n"
    using totals_split[where k = 3 and f = "calculatePrize g" and n = n] a(6) that fx
    by blast+
  show "sum_list (map (calculatePrize g) [0..<n]) = prize (mode g) - 5 / 2 ^ 53" if "3 \<le> n"
    unfolding t(1)[OF that] l a(2) by simp
  show e: "double_sum (map (calculatePrize g) [0..<n]) = prize (mode g) - 1 / 2 ^ 49" if "3 \<le> n"
    unfolding t(2)[OF that] d a(2) by simp
  consider "n = 0" | "n = 1" | "n = 2" | "3 \<le> n" by linarith
  then show "double_sum (map (calculatePrize g) [0..<n]) \<le> prize (mode g)"
  proof cases
    case 1
    then show ?thesis by (simp add: upt_small a double_sum_def double_eval)
  next
    case 2
    then show ?thesis by (simp add: upt_small a double_sum_def double_eval)
  next
    case 3
    then show ?thesis by (simp add: upt_small a double_sum_def double_eval)
  next
    case 4
    then show ?thesis unfolding e[OF 4] by simp
  qed
qed


text \<open>
  C2. When a match terminates it becomes finished and the emitted rankings are a
  reordering of all participants in which every alive participant comes before every
  eliminated one and the eliminated ones are in descending order of survival ticks; the
  entries carry the ranks \<open>1..N\<close>. The prize of the entry at zero-based index \<open>i\<close> is the
  whole prize at index 0 and nothing elsewhere for modes of at most 2 players; for modes
  of at most 4 players it is the double product of the prize with 0.75 and with 0.25 at
  indices 0 and 1; for larger modes the double product of the prize with 0.694, 0.208
  and 0.098 at indices 0 to 2; every other index gets 0. For the four configured modes
  the shares, added up as doubles, total at most the mode's prize. When all paid ranks
  are filled, that total is the prize for the 2-player and 4-player modes and one unit in
  the last place below it for the two larger modes (\<open>2 ^ (- 50)\<close> below 7.2 and
  \<open>2 ^ (- 49)\<close> below 9); the exact sum of the emitted shares is the prize for the 2-player
  mode, \<open>2 ^ (- 54)\<close> above it for the 4-player mode, and \<open>3 * 2 ^ (- 52)\<close> and
  \<open>5 * 2 ^ (- 53)\<close> below it for the two larger modes.
\<close>

theorem endGame_rankings_prizes:
  "state (fst (endGame g)) = Finished
   \<and> mset (rankedPlayers g) = mset (players g)
   \<and> snd (endGame g) =
       map (\<lambda>i. rankingEntry g i (rankedPlayers g ! i)) [0..<length (players g)]
   \<and> map r_rank (snd (endGame g)) = [1..<Suc (length (players g))]
   \<and> (\<forall>i j. i < j \<and> j < length (players g) \<longrightarrow>
         (alive (rankedPlayers g ! j) \<longrightarrow> alive (rankedPlayers g ! i))
       \<and> (\<not> alive (rankedPlayers g ! i) \<longrightarrow>
            \<not> alive (rankedPlayers g ! j)
            \<and> survivalTime (rankedPlayers g ! j) \<le> survivalTime (rankedPlayers g ! i)))
   \<and> (\<forall>i < length (players g).
         r_prize (snd (endGame g) ! i) =
           (if mode_players (mode g) \<le> 2 then (if i = 0 then prize (mode g) else 0)
            else if mode_players (mode g) \<le> 4 then
              (if i = 0 then double_mul (prize (mode g)) (double_round 0.75)
               else if i = 1 then double_mul (prize (mode g)) (double_round 0.25) else 0)
            else (if i = 0 then double_mul (prize (mode g)) (double_round 0.694)
                  else if i = 1 then double_mul (prize (mode g)) (double_round 0.208)
                  else if i = 2 then double_mul (prize (mode g)) (double_round 0.098) else 0)))
   \<and> (mode g \<in> snd ` set GAME_MODES \<longrightarrow>
         double_sum (map r_prize (snd (endGame g))) \<le> prize (mode g)
       \<and> ((if mode_players (mode g) \<le> 2 then 1
            else if mode_players (mode g) \<le> 4 then 2 else 3) \<le> length (players g) \<longrightarrow>
            sum_list (map r_prize (snd (endGame g))) =
              prize (mode g)
                + (if mode_players (mode g) \<le> 2 then 0
                   else if mode_players (mode g) \<le> 4 then 1 / 2 ^ 54
                   else if mode_players (mode g) \<le> 8 then - 3 / 2 ^ 52 else - 5 / 2 ^ 53)
          \<and> double_sum (map r_prize (snd (endGame g))) =
              prize (mode g)
                - (if mode_players (mode g) \<le> 4 then 0
                   else if mode_players (mode g) \<le> 8 then 1 / 2 ^ 50 else 1 / 2 ^ 49)))"
proof -
  have fin: "state (fst (endGame g)) = Finished"
    by (simp add: endGame_def Let_def)
  have perm: "mset (rankedPlayers g) = mset (players g)"
    by (simp add: rankedPlayers_def mset_sort_by)
  have ord: "(alive (rankedPlayers g ! j) \<longrightarrow> alive (rankedPlayers g ! i))
       \<and> (\<not> alive (rankedPlayers g ! i) \<longrightarrow>
            \<not> alive (rankedPlayers g ! j)
            \<and> survivalTime (rankedPlayers g ! j) \<le> survivalTime (rankedPlayers g ! i))"
    if "i < j" "j < length (players g)" for i j
    using rankedPlayers_order[OF that] by (auto simp: rankLe_iff)
  have pr: "r_prize (snd (endGame g) ! i) = calculatePrize g i" if "i < length (players g)" for i
    using that by (simp add: snd_endGame rankingEntry_def)
  have le: "double_sum (map r_prize (snd (endGame g))) \<le> prize (mode g)"
    if "mode g \<in> snd ` set GAME_MODES"
    using configured_modes[OF that] duel_totals(1)[of g] squad_totals(1)[of g]
      ranked_totals(1)[of g] arena_totals(1)[of g]
    unfolding prize_endGame by blast
  have eq: "sum_list (map r_prize (snd (endGame g))) =
              prize (mode g)
                + (if mode_players (mode g) \<le> 2 then 0
                   else if mode_players (mode g) \<le> 4 then 1 / 2 ^ 54
                   else if mode_players (mode g) \<le> 8 then - 3 / 2 ^ 52 else - 5 / 2 ^ 53)
          \<and> double_sum (map r_prize (snd (endGame g))) =
              prize (mode g)
                - (if mode_players (mode g) \<le> 4 then 0
                   else if mode_players (mode g) \<le> 8 then 1 / 2 ^ 50 else 1 / 2 ^ 49)"
    if cfg: "mode g \<in> snd ` set GAME_MODES"
      and full: "(if mode_players (mode g) \<le> 2 then 1
            else if mode_players (mode g) \<le> 4 then 2 else 3) \<le> length (players g)"
  proof -
    from configured_modes[OF cfg] consider
      "mode g = snd (GAME_MODES ! 0)" | "mode g = snd (GAME_MODES ! 1)"
      | "mode g = snd (GAME_MODES ! 2)" | "mode g = snd (GAME_MODES ! 3)"
      by blast
    then show ?thesis
    proof cases
      case 1
      note n = duel_amounts(1)[OF 1]
      from full have "1 \<le> length (players g)" by (simp add: n)
      from duel_totals(2,3)[OF 1 this] show ?thesis
        unfolding prize_endGame by (simp add: n)
    next
      case 2
      note n = squad_amounts(1)[OF 2]
      from full have "2 \<le> length (players g)" by (simp add: n)
      from squad_totals(2,3)[OF 2 this] show ?thesis
        unfolding prize_endGame by (simp add: n)
    next
      case 3
      note n = ranked_amounts(1)[OF 3]
      from full have "3 \<le> length (players g)" by (simp add: n)
      from ranked_totals(2,3)[OF 3 this] show ?thesis
        unfolding prize_endGame by (simp add: n)
    next
      case 4
      note n = arena_amounts(1)[OF 4]
      from full have "3 \<le> length (players g)" by (simp add: n)
      from arena_totals(2,3)[OF 4 this] show ?thesis
        unfolding prize_endGame by (simp add: n)
    qed
  qed
  show ?thesis
    using fin perm snd_endGame[of g] rank_endGame[of g] ord pr le eq
    by (simp only: calculatePrize_cases) blast
qed

theorem endGame_rankings_prizes_witness:
  "mode squad_final \<in> snd ` set GAME_MODES
   \<and> mode_players (mode squad_final) = 4
   \<and> 2 \<le> length (players squad_final)
   \<and> map r_playerId (snd (endGame squad_final)) = [''a'', ''c'', ''d'', ''b'']
   \<and> map r_rank (snd (endGame squad_final)) = [1, 2, 3, 4]
   \<and> map r_prize (snd (endGame squad_final))
       = [3039929748475085 / 2251799813685248, 8106479329266893 / 18014398509481984, 0, 0]
   \<and> prize (mode squad_final) = 8106479329266893 / 4503599627370496
   \<and> double_sum (map r_prize (snd (endGame squad_final))) = prize (mode squad_final)
   \<and> sum_list (map r_prize (snd (endGame squad_final))) = prize (mode squad_final) + 1 / 2 ^ 54"
proof -
  have m: "mode squad_final = snd (GAME_MODES ! 1)"
    by (simp add: squad_final_def sample_defs)
  have cfg: "mode squad_final \<in> snd ` set GAME_MODES"
    unfolding m by (simp add: GAME_MODES_def)
  note a = squad_amounts[OF m]
  have len: "length (players squad_final) = 4"
    by (simp add: squad_final_def sample_defs)
  have ids: "map r_playerId (snd (endGame squad_final)) = [''a'', ''c'', ''d'', ''b'']"
    by (simp add: squad_final_def sample_defs endGame_def rankedPlayers_def rankCompare_def
        rankingEntry_def Let_def)
  note t = endGame_rankings_prizes [of squad_final]
  note t4 = t[THEN conjunct2, THEN conjunct2, THEN conjunct2, THEN conjunct1]
  note t7 = t[THEN conjunct2, THEN conjunct2, THEN conjunct2, THEN conjunct2, THEN conjunct2,
      THEN conjunct2]
  have ranks: "map r_rank (snd (endGame squad_final)) = [1, 2, 3, 4]"
    unfolding t4 len by (simp add: upt_rec)
  have full: "(if mode_players (mode squad_final) \<le> 2 then 1
            else if mode_players (mode squad_final) \<le> 4 then 2 else 3)
           \<le> length (players squad_final)"
    by (simp add: a(1) len)
  have sums: "double_sum (map r_prize (snd (endGame squad_final))) = prize (mode squad_final)"
    "sum_list (map r_prize (snd (endGame squad_final))) = prize (mode squad_final) + 1 / 2 ^ 54"
    using t7 cfg full by (simp_all add: a(1))
  have shares: "map r_prize (snd (endGame squad_final))
       = [3039929748475085 / 2251799813685248, 8106479329266893 / 18014398509481984, 0, 0]"
    unfolding prize_endGame len by (simp add: upt_rec a)
  show ?thesis
    using cfg a(1,2) len ids ranks shares sums by simp
qed

text \<open>
  In a ranked match of eight all three paid ranks are filled, and the emitted shares
  do not add up to the prize: the exact sum and the sum in doubles both fall short of it.
\<close>

theorem shares_fall_short_of_prize:
  "mode ranked_final \<in> snd ` set GAME_MODES
   \<and> mode_players (mode ranked_final) = 8
   \<and> length (players ranked_final) = 8
   \<and> map r_playerId (snd (endGame ranked_final))
       = [''c'', ''a'', ''h'', ''f'', ''e'', ''g'', ''d'', ''b'']
   \<and> prize (mode ranked_final) = 8106479329266893 / 1125899906842624
   \<and> map r_prize (snd (endGame ranked_final))
       = [5625896654511223 / 1125899906842624, 6744590801950055 / 4503599627370496,
          1588869948536311 / 2251799813685248, 0, 0, 0, 0, 0]
   \<and> sum_list (map r_prize (snd (endGame ranked_final))) = 32425917317067569 / 4503599627370496
   \<and> sum_list (map r_prize (snd (endGame ranked_final))) < prize (mode ranked_final)
   \<and> sum_list (map r_prize (snd (endGame ranked_final))) \<noteq> prize (mode ranked_final)
   \<and> double_sum (map r_prize (snd (endGame ranked_final))) = 2026619832316723 / 281474976710656
   \<and> double_sum (map r_prize (snd (endGame ranked_final))) \<noteq> prize (mode ranked_final)"
proof -
  have m: "mode ranked_final = snd (GAME_MODES ! 2)"
    by (simp add: ranked_final_def sample_defs)
  have cfg: "mode ranked_final \<in> snd ` set GAME_MODES"
    unfolding m by (simp add: GAME_MODES_def)
  note a = ranked_amounts[OF m]
  have len: "length (players ranked_final) = 8"
    by (simp add: ranked_final_def sample_defs)
  have ids: "map r_playerId (snd (endGame ranked_final))
       = [''c'', ''a'', ''h'', ''f'', ''e'', ''g'', ''d'', ''b'']"
    by (simp add: ranked_final_def sample_defs endGame_def rankedPlayers_def rankCompare_def
        rankingEntry_def Let_def)
  have shares: "map r_prize (snd (endGame ranked_final))
       = [5625896654511223 / 1125899906842624, 6744590801950055 / 4503599627370496,
          1588869948536311 / 2251799813685248, 0, 0, 0, 0, 0]"
    unfolding prize_endGame len by (simp add: upt_rec a a(5)[unfolded numeral_2_eq_2])
  have s: "sum_list (map r_prize (snd (endGame ranked_final))) = 32425917317067569 / 4503599627370496"
    unfolding shares by simp
  have d: "double_sum (map r_prize (snd (endGame ranked_final))) = 2026619832316723 / 281474976710656"
    unfolding shares by (simp add: double_sum_def double_eval)
  have cmp: "sum_list (map r_prize (snd (endGame ranked_final))) < prize (mode ranked_final)"
    "sum_list (map r_prize (snd (endGame ranked_final))) \<noteq> prize (mode ranked_final)"
    "double_sum (map r_prize (snd (endGame ranked_final))) \<noteq> prize (mode ranked_final)"
    unfolding s d a(2) by simp_all
  show ?thesis
    using cfg a(1,2) len ids shares s d cmp by simp
qed

section \<open>Anti-cheat: the uniform 20 ms cadence\<close>

lemma validateInput_flagged:
  assumes "playerData ac p = Some d" "flagged d"
  shows "validateInput ac p inp now = (False, ac)"
  using assms by (simp add: validateInput_def Let_def map_upd_triv)

lemma validateInputs_flagged:
  assumes "isPlayerFlagged ac p"
  shows "validateInputs ac p cs = (replicate (length cs) False, ac)"
proof -
  from assms obtain d where d: "playerData ac p = Some d" "flagged d"
    by (auto simp: isPlayerFlagged_def split: option.splits)
  show ?thesis
    by (induction cs) (simp_all add: validateInput_flagged[OF d] Let_def)
qed

lemma validateInputs_append:
  "validateInputs ac p (cs @ ds) =
     (fst (validateInputs ac p cs) @ fst (validateInputs (snd (validateInputs ac p cs)) p ds),
      snd (validateInputs (snd (validateInputs ac p cs)) p ds))"
  by (induction cs arbitrary: ac) (simp_all add: Let_def)

lemma validateInputs_snoc:
  "validateInputs ac p (cs @ [c]) =
     (fst (validateInputs ac p cs) @ [fst (validateInput (snd (validateInputs ac p cs)) p (fst c) (snd c))],
      snd (validateInput (snd (validateInputs ac p cs)) p (fst c) (snd c)))"
  by (simp add: validateInputs_append Let_def)

text \<open>The two outcomes that occur in the scenario, as single steps on the tracking data.\<close>

definition tracked :: "antiCheat \<Rightarrow> string \<Rightarrow> player_data" where
  "tracked ac p =
     (case playerData ac p of
        None \<Rightarrow> \<lparr> inputHistory = [], lastPosition = None, warningCount = 0, flagged = False \<rparr>
      | Some d \<Rightarrow> d)"

lemma validateInput_accept:
  assumes "\<not> flagged (tracked ac p)"
    and "inputHistory (tracked ac p) = [] \<or>
         (length (inputHistory (tracked ac p)) < 10 \<and>
          now - ih_timestamp (last (inputHistory (tracked ac p))) \<ge> 50)"
    and "validateDirection (in_direction inp)"
  shows "fst (validateInput ac p inp now) = True"
    and "tracked (snd (validateInput ac p inp now)) p =
           (tracked ac p)\<lparr> inputHistory := inputHistory (tracked ac p) @
              [\<lparr> ih_timestamp = now, ih_direction = in_direction inp \<rparr>] \<rparr>"
  using assms
  by (auto simp: validateInput_def tracked_def Let_def validateInputTiming_def
      detectBotPattern_def MIN_INPUT_DELAY_def split: option.splits)

lemma validateInput_rapid:
  assumes "\<not> flagged (tracked ac p)"
    and "inputHistory (tracked ac p) \<noteq> []"
    and "now - ih_timestamp (last (inputHistory (tracked ac p))) < 50"
  shows "fst (validateInput ac p inp now) = False"
    and "tracked (snd (validateInput ac p inp now)) p =
           (tracked ac p)\<lparr> warningCount := warningCount (tracked ac p) + 1,
                            flagged := (warningCount (tracked ac p) + 1 \<ge> 3) \<rparr>"
  using assms
  by (auto simp: validateInput_def tracked_def Let_def validateInputTiming_def flagPlayer_def
      MIN_INPUT_DELAY_def MAX_WARNINGS_def split: option.splits)

lemma isPlayerFlagged_tracked: "isPlayerFlagged ac p = flagged (tracked ac p)"
  by (simp add: isPlayerFlagged_def tracked_def split: option.splits)


lemma uniformCadence_take:
  assumes "k \<le> length inputs"
  shows "take k (uniformCadence t0 per inputs) = map (\<lambda>i. (inputs ! i, t0 + per * int i)) [0..<k]"
  using assms by (simp add: uniformCadence_def take_map take_upt del: upt_Suc)

lemma uniformCadence_drop:
  "drop k (uniformCadence t0 per inputs) = map (\<lambda>i. (inputs ! i, t0 + per * int i)) [k..<length inputs]"
  by (simp add: uniformCadence_def drop_map drop_upt del: upt_Suc)

lemma first_five:
  fixes t0 :: int and inputs :: "player_input list"
  assumes fresh: "playerData ac p = None"
    and valid: "\<forall>i<5. validateDirection (in_direction (inputs ! i))"
  defines "c \<equiv> \<lambda>i. (inputs ! i, t0 + 20 * int i)"
  shows "fst (validateInputs ac p (map c [0..<5])) = [True, False, False, True, False]"
    and "isPlayerFlagged (snd (validateInputs ac p (map c [0..<5]))) p"
    and "\<not> isPlayerFlagged (snd (validateInputs ac p (map c [0..<4]))) p"
proof -
  let ?S = "\<lambda>k. snd (validateInputs ac p (map c [0..<k]))"
  let ?R = "\<lambda>k. fst (validateInputs ac p (map c [0..<k]))"
  let ?d0 = "\<lparr> inputHistory = [], lastPosition = None, warningCount = 0, flagged = False \<rparr>"
  have step: "?R (Suc k) = ?R k @ [fst (validateInput (?S k) p (inputs ! k) (t0 + 20 * int k))]"
    "?S (Suc k) = snd (validateInput (?S k) p (inputs ! k) (t0 + 20 * int k))" for k
    by (simp_all add: validateInputs_snoc c_def)
  have T0: "tracked (?S 0) p = ?d0" and R0: "?R 0 = []"
    using fresh by (simp_all add: tracked_def)
  have v: "validateDirection (in_direction (inputs ! 0))" "validateDirection (in_direction (inputs ! 3))"
    using valid by simp_all
  have S1: "?S 1 = snd (validateInput (?S 0) p (inputs ! 0) t0)"
    and R1: "?R 1 = [fst (validateInput (?S 0) p (inputs ! 0) t0)]"
    using step[of 0] R0 by simp_all
  have T1: "tracked (?S 1) p = ?d0\<lparr> inputHistory := [\<lparr> ih_timestamp = t0, ih_direction = in_direction (inputs ! 0) \<rparr>] \<rparr>"
    and V1: "?R 1 = [True]"
    unfolding S1 R1 using validateInput_accept[of "?S 0" p t0 "inputs ! 0"] v(1) T0 by simp_all
  have S2: "?S 2 = snd (validateInput (?S 1) p (inputs ! 1) (t0 + 20))"
    and R2: "?R 2 = ?R 1 @ [fst (validateInput (?S 1) p (inputs ! 1) (t0 + 20))]"
    using step[of 1] by (simp_all add: numeral_2_eq_2)
  have T2: "tracked (?S 2) p = ?d0\<lparr> inputHistory := [\<lparr> ih_timestamp = t0, ih_direction = in_direction (inputs ! 0) \<rparr>],
                                  warningCount := 1 \<rparr>"
    and V2: "?R 2 = [True, False]"
    unfolding S2 R2 using validateInput_rapid[of "?S 1" p "t0 + 20" "inputs ! 1"] T1 V1 by simp_all
  have S3: "?S 3 = snd (validateInput (?S 2) p (inputs ! 2) (t0 + 40))"
    and R3: "?R 3 = ?R 2 @ [fst (validateInput (?S 2) p (inputs ! 2) (t0 + 40))]"
    using step[of 2] by (simp_all add: numeral_3_eq_3 numeral_2_eq_2)
  have T3: "tracked (?S 3) p = ?d0\<lparr> inputHistory := [\<lparr> ih_timestamp = t0, ih_direction = in_direction (inputs ! 0) \<rparr>],
                                  warningCount := 2 \<rparr>"
    and V3: "?R 3 = [True, False, False]"
    unfolding S3 R3 using validateInput_rapid[of "?S 2" p "t0 + 40" "inputs ! 2"] T2 V2 by simp_all
  have four: "4 = Suc 3" and five: "5 = Suc 4" by simp_all
  have S4: "?S 4 = snd (validateInput (?S 3) p (inputs ! 3) (t0 + 60))"
    and R4: "?R 4 = ?R 3 @ [fst (validateInput (?S 3) p (inputs ! 3) (t0 + 60))]"
    unfolding four using step[of 3] by simp_all
  have T4: "tracked (?S 4) p = ?d0\<lparr> inputHistory := [\<lparr> ih_timestamp = t0, ih_direction = in_direction (inputs ! 0) \<rparr>,
                                     \<lparr> ih_timestamp = t0 + 60, ih_direction = in_direction (inputs ! 3) \<rparr>],
                                  warningCount := 2 \<rparr>"
    and V4: "?R 4 = [True, False, False, True]"
    unfolding S4 R4 using validateInput_accept[of "?S 3" p "t0 + 60" "inputs ! 3"] v(2) T3 V3 by simp_all
  have S5: "?S 5 = snd (validateInput (?S 4) p (inputs ! 4) (t0 + 80))"
    and R5: "?R 5 = ?R 4 @ [fst (validateInput (?S 4) p (inputs ! 4) (t0 + 80))]"
    unfolding five using step[of 4] by simp_all
  have T5: "flagged (tracked (?S 5) p)"
    and V5: "?R 5 = [True, False, False, True, False]"
    unfolding S5 R5 using validateInput_rapid[of "?S 4" p "t0 + 80" "inputs ! 4"] T4 V4 by simp_all
  show "?R 5 = [True, False, False, True, False]" by (rule V5)
  show "isPlayerFlagged (?S 5) p" using T5 by (simp only: isPlayerFlagged_tracked)
  show "\<not> isPlayerFlagged (?S 4) p" using T4 by (simp only: isPlayerFlagged_tracked) simp
qed


text \<open>
  C3. A participant without tracking data sends 25 commands, all with valid direction
  tokens, one every 20 ms. The first is accepted, the second and third arrive less than
  50 ms after the last accepted one and are rejected, the fourth (60 ms after the first)
  is accepted, and the fifth is the third violation: the participant is flagged after
  its first five commands (and not after four), which is within the first 20, and each
  of the remaining 20 commands is rejected.
\<close>

theorem uniform_cadence_flagged:
  assumes fresh: "playerData ac p = None"
    and len: "length inputs = 25"
    and valid: "\<forall>inp\<in>set inputs. validateDirection (in_direction inp)"
  shows "isPlayerFlagged (snd (validateInputs ac p (take 5 (uniformCadence t0 20 inputs)))) p
     \<and> \<not> isPlayerFlagged (snd (validateInputs ac p (take 4 (uniformCadence t0 20 inputs)))) p
     \<and> fst (validateInputs ac p (uniformCadence t0 20 inputs))
           = [True, False, False, True, False] @ replicate 20 False"
proof -
  let ?c = "\<lambda>i. (inputs ! i, t0 + 20 * int i)"
  let ?u = "uniformCadence t0 20 inputs"
  have v5: "\<forall>i<5. validateDirection (in_direction (inputs ! i))"
    using valid len by simp
  have t5: "take 5 ?u = map ?c [0..<5]"
    using uniformCadence_take[of 5 inputs t0 20] len by simp
  have t4: "take 4 ?u = map ?c [0..<4]"
    using uniformCadence_take[of 4 inputs t0 20] len by simp
  have lu: "length ?u = 25"
    using len by (simp add: uniformCadence_def)
  note five = first_five[OF fresh v5, of t0]
  have rest: "validateInputs (snd (validateInputs ac p (take 5 ?u))) p (drop 5 ?u)
        = (replicate 20 False, snd (validateInputs ac p (take 5 ?u)))"
    using validateInputs_flagged[of "snd (validateInputs ac p (take 5 ?u))" p "drop 5 ?u"]
      five(2) lu unfolding t5 by simp
  have "validateInputs ac p ?u = validateInputs ac p (take 5 ?u @ drop 5 ?u)"
    by (simp only: append_take_drop_id)
  also have "fst \<dots> = fst (validateInputs ac p (take 5 ?u)) @ replicate 20 False"
    unfolding validateInputs_append rest by simp
  finally have all: "fst (validateInputs ac p ?u) = [True, False, False, True, False] @ replicate 20 False"
    using five(1) unfolding t5 by simp
  show ?thesis
    using five(2,3) all unfolding t5 t4 by blast
qed

definition up_input :: player_input where
  "up_input = \<lparr> in_direction = ''up'', in_timestamp = None \<rparr>"

theorem uniform_cadence_flagged_witness:
  "playerData AntiCheat_new ''socket_1'' = None
   \<and> length (replicate 25 up_input) = 25
   \<and> validateDirection (in_direction up_input)
   \<and> fst (validateInputs AntiCheat_new ''socket_1'' (uniformCadence 1000 20 (replicate 25 up_input)))
         = [True, False, False, True, False] @ replicate 20 False"
proof -
  have a: "playerData AntiCheat_new ''socket_1'' = None"
    by (simp add: AntiCheat_new_def)
  have b: "length (replicate 25 up_input) = 25"
    by simp
  have c: "\<forall>inp\<in>set (replicate 25 up_input). validateDirection (in_direction inp)"
    by (simp add: up_input_def validateDirection_def)
  have d: "validateDirection (in_direction up_input)"
    by (simp add: up_input_def validateDirection_def)
  show ?thesis
    using a b d uniform_cadence_flagged [OF a b c, of 1000] by blast
qed

section \<open>Anti-cheat: flags are permanent until disconnect\<close>

text \<open>
  What can happen to the filter: a command of some participant is validated, or some
  participant disconnects.
\<close>

datatype ac_event = Validate string player_input int | Clear string

fun ac_step :: "antiCheat \<Rightarrow> ac_event \<Rightarrow> antiCheat" where
  "ac_step ac (Validate q inp now) = snd (validateInput ac q inp now)"
| "ac_step ac (Clear q) = clearPlayerData ac q"

definition ac_run :: "antiCheat \<Rightarrow> ac_event list \<Rightarrow> antiCheat" where
  "ac_run ac es = foldl ac_step ac es"

lemma flagPlayer_other: "q \<noteq> p \<Longrightarrow> playerData (flagPlayer ac q) p = playerData ac p"
  by (simp add: flagPlayer_def Let_def split: option.splits)

lemma validateInput_other:
  "q \<noteq> p \<Longrightarrow> playerData (snd (validateInput ac q inp now)) p = playerData ac p"
  by (simp add: validateInput_def Let_def flagPlayer_other)

lemma ac_step_flagged:
  assumes "playerData ac p = Some d" "flagged d" "e \<noteq> Clear p"
  shows "playerData (ac_step ac e) p = Some d"
proof (cases e)
  case (Validate q inp now)
  show ?thesis
  proof (cases "q = p")
    case True
    with assms Validate show ?thesis by (simp add: validateInput_flagged)
  next
    case False
    with assms Validate show ?thesis by (simp add: validateInput_other)
  qed
next
  case (Clear q)
  with assms show ?thesis by (auto simp: clearPlayerData_def)
qed

lemma ac_run_flagged:
  assumes "playerData ac p = Some d" "flagged d" "Clear p \<notin> set es"
  shows "playerData (ac_run ac es) p = Some d"
  using assms unfolding ac_run_def
proof (induction es arbitrary: ac)
  case Nil
  then show ?case by simp
next
  case (Cons e es)
  have "playerData (ac_step ac e) p = Some d"
    using Cons.prems by (intro ac_step_flagged) auto
  with Cons show ?case by simp
qed

lemma flagPlayer_consistent:
  assumes "playerData ac q = Some d" "\<not> flagged d"
  shows "\<exists>d'. playerData (flagPlayer ac q) q = Some d'
          \<and> (flagged d' \<longleftrightarrow> MAX_WARNINGS \<le> warningCount d')"
  using assms by (simp add: flagPlayer_def Let_def)

lemma validateInput_consistent:
  assumes "\<And>d. playerData ac q = Some d \<Longrightarrow> (flagged d \<longleftrightarrow> MAX_WARNINGS \<le> warningCount d)"
    and "playerData (snd (validateInput ac q inp now)) q = Some d'"
  shows "flagged d' \<longleftrightarrow> MAX_WARNINGS \<le> warningCount d'"
proof -
  let ?fresh = "\<lparr> inputHistory = [], lastPosition = None, warningCount = 0, flagged = False \<rparr>"
  let ?d = "case playerData ac q of None \<Rightarrow> ?fresh | Some d \<Rightarrow> d"
  let ?ac1 = "ac\<lparr> playerData := (playerData ac)(q \<mapsto> ?d) \<rparr>"
  have d: "flagged ?d \<longleftrightarrow> MAX_WARNINGS \<le> warningCount ?d"
    using assms(1) by (auto simp: MAX_WARNINGS_def split: option.splits)
  have ac1: "playerData ?ac1 q = Some ?d"
    by simp
  show ?thesis
  proof (cases "flagged ?d")
    case True
    then have "snd (validateInput ac q inp now) = ?ac1"
      by (simp add: validateInput_def Let_def)
    with assms(2) d show ?thesis by simp
  next
    case False
    from flagPlayer_consistent[OF ac1 False]
    have fl: "playerData (flagPlayer ?ac1 q) q = Some d' \<Longrightarrow> ?thesis"
      by auto
    have "snd (validateInput ac q inp now) = flagPlayer ?ac1 q
        \<or> (\<exists>h. snd (validateInput ac q inp now)
                 = ?ac1\<lparr> playerData := (playerData ?ac1)(q \<mapsto> ?d\<lparr> inputHistory := h \<rparr>) \<rparr>)"
      using False by (auto simp: validateInput_def Let_def)
    then show ?thesis
    proof
      assume "snd (validateInput ac q inp now) = flagPlayer ?ac1 q"
      with assms(2) fl show ?thesis by simp
    next
      assume "\<exists>h. snd (validateInput ac q inp now)
                 = ?ac1\<lparr> playerData := (playerData ?ac1)(q \<mapsto> ?d\<lparr> inputHistory := h \<rparr>) \<rparr>"
      then obtain h where "snd (validateInput ac q inp now)
                 = ?ac1\<lparr> playerData := (playerData ?ac1)(q \<mapsto> ?d\<lparr> inputHistory := h \<rparr>) \<rparr>" ..
      with assms(2) have "d' = ?d\<lparr> inputHistory := h \<rparr>" by simp
      with d show ?thesis by simp
    qed
  qed
qed

lemma ac_step_consistent:
  assumes "\<And>q d. playerData ac q = Some d \<Longrightarrow> (flagged d \<longleftrightarrow> MAX_WARNINGS \<le> warningCount d)"
    and "playerData (ac_step ac e) q = Some d'"
  shows "flagged d' \<longleftrightarrow> MAX_WARNINGS \<le> warningCount d'"
proof (cases e)
  case (Validate r inp now)
  show ?thesis
  proof (cases "r = q")
    case True
    with assms Validate show ?thesis
      using validateInput_consistent[where ac=ac and q=q and d'=d' and inp=inp and now=now] by simp
  next
    case False
    with assms Validate show ?thesis by (simp add: validateInput_other)
  qed
next
  case (Clear r)
  with assms show ?thesis by (auto simp: clearPlayerData_def split: if_splits)
qed

lemma ac_run_consistent:
  assumes "\<And>q d. playerData ac q = Some d \<Longrightarrow> (flagged d \<longleftrightarrow> MAX_WARNINGS \<le> warningCount d)"
    and "playerData (ac_run ac es) q = Some d'"
  shows "flagged d' \<longleftrightarrow> MAX_WARNINGS \<le> warningCount d'"
  using assms unfolding ac_run_def
proof (induction es arbitrary: ac)
  case Nil
  then show ?case by simp
next
  case (Cons e es)
  show ?case
  proof (rule Cons.IH[of "ac_step ac e"])
    show "flagged d = (MAX_WARNINGS \<le> warningCount d)" if "playerData (ac_step ac e) q = Some d" for q d
      using ac_step_consistent[where ac=ac and e=e and q=q and d'=d] Cons.prems(1) that by blast
    show "playerData (foldl ac_step (ac_step ac e) es) q = Some d'"
      using Cons.prems(2) by simp
  qed
qed

text \<open>
  C5. In every state that the filter reaches from its initial one, a participant is
  flagged exactly when its warning count has reached 3. A flagged participant stays as
  it is for as long as it does not disconnect: whatever is validated for it or for
  others and whoever else disconnects, its tracking data (warning count, input history,
  flag) is the same afterwards, and each of its commands is rejected and leaves the
  filter unchanged. The disconnect handler clears the participant's data; after that
  the participant has no data and is not flagged, and a participant without data is not
  flagged and has its first valid command accepted.
\<close>

theorem flagged_is_permanent:
  "(\<forall>q d. playerData (ac_run AntiCheat_new es) q = Some d \<longrightarrow>
        (flagged d \<longleftrightarrow> MAX_WARNINGS \<le> warningCount d))
   \<and> (playerData ac p = Some d \<and> flagged d \<and> Clear p \<notin> set es' \<longrightarrow>
        playerData (ac_run ac es') p = Some d
        \<and> isPlayerFlagged (ac_run ac es') p
        \<and> validateInput (ac_run ac es') p inp now = (False, ac_run ac es'))
   \<and> srv_antiCheat (on_disconnect srv p) = clearPlayerData (srv_antiCheat srv) p
   \<and> playerData (clearPlayerData ac p) p = None
   \<and> \<not> isPlayerFlagged (clearPlayerData ac p) p
   \<and> (playerData ac q = None \<longrightarrow>
        \<not> isPlayerFlagged ac q
        \<and> (validateDirection (in_direction inp) \<longrightarrow> fst (validateInput ac q inp now)))"
proof -
  have one: "flagged d = (MAX_WARNINGS \<le> warningCount d)"
    if "playerData (ac_run AntiCheat_new es) q = Some d" for q d
    using ac_run_consistent[where ac=AntiCheat_new and es=es and q=q and d'=d] that by (simp add: AntiCheat_new_def)
  have two: "playerData (ac_run ac es') p = Some d
        \<and> isPlayerFlagged (ac_run ac es') p
        \<and> validateInput (ac_run ac es') p inp now = (False, ac_run ac es')"
    if "playerData ac p = Some d" "flagged d" "Clear p \<notin> set es'"
    using ac_run_flagged[OF that] that(2)
    by (simp add: validateInput_flagged isPlayerFlagged_def)
  have three: "srv_antiCheat (on_disconnect srv p) = clearPlayerData (srv_antiCheat srv) p"
    by (simp add: on_disconnect_def)
  have four: "playerData (clearPlayerData ac p) p = None" "\<not> isPlayerFlagged (clearPlayerData ac p) p"
    by (simp_all add: clearPlayerData_def isPlayerFlagged_def)
  have five: "\<not> isPlayerFlagged ac q
        \<and> (validateDirection (in_direction inp) \<longrightarrow> fst (validateInput ac q inp now))"
    if "playerData ac q = None"
    using that validateInput_accept(1)[where ac=ac and p=q and now=now and inp=inp]
    by (simp add: isPlayerFlagged_def tracked_def)
  show ?thesis
    using one two three four five by blast
qed

definition three_strikes :: "ac_event list" where
  "three_strikes =
     [Validate ''socket_1'' up_input 1000, Validate ''socket_1'' up_input 1010,
      Validate ''socket_1'' up_input 1020, Validate ''socket_1'' up_input 1030]"

definition struck_out :: player_data where
  "struck_out =
     \<lparr> inputHistory = [\<lparr> ih_timestamp = 1000, ih_direction = ''up'' \<rparr>], lastPosition = None,
       warningCount = 3, flagged = True \<rparr>"

definition afterwards :: "ac_event list" where
  "afterwards =
     [Validate ''socket_1'' up_input 2000, Validate ''socket_2'' up_input 2010, Clear ''socket_2'']"

lemma three_strikes_run:
  "playerData (ac_run AntiCheat_new three_strikes) ''socket_1'' = Some struck_out"
  by (simp add: ac_run_def three_strikes_def struck_out_def AntiCheat_new_def up_input_def
      validateInput_def validateInputTiming_def validateDirection_def detectBotPattern_def
      flagPlayer_def MIN_INPUT_DELAY_def MAX_WARNINGS_def Let_def)

theorem flagged_is_permanent_witness:
  "playerData (ac_run AntiCheat_new three_strikes) ''socket_1'' = Some struck_out
   \<and> flagged struck_out \<and> MAX_WARNINGS \<le> warningCount struck_out
   \<and> Clear ''socket_1'' \<notin> set afterwards
   \<and> playerData (ac_run (ac_run AntiCheat_new three_strikes) afterwards) ''socket_1''
       = Some struck_out
   \<and> validateInput (ac_run (ac_run AntiCheat_new three_strikes) afterwards) ''socket_1'' up_input 3000
       = (False, ac_run (ac_run AntiCheat_new three_strikes) afterwards)
   \<and> playerData AntiCheat_new ''socket_3'' = None
   \<and> validateDirection (in_direction up_input)
   \<and> fst (validateInput AntiCheat_new ''socket_3'' up_input 3000)"
proof -
  have a: "flagged struck_out" "MAX_WARNINGS \<le> warningCount struck_out"
    by (simp_all add: struck_out_def MAX_WARNINGS_def)
  have b: "Clear ''socket_1'' \<notin> set afterwards"
    by (simp add: afterwards_def)
  have c: "playerData AntiCheat_new ''socket_3'' = None" "validateDirection (in_direction up_input)"
    by (simp_all add: AntiCheat_new_def up_input_def validateDirection_def)
  show ?thesis
    using three_strikes_run a b c
      flagged_is_permanent [where es = three_strikes and ac = "ac_run AntiCheat_new three_strikes"
        and p = "''socket_1''" and d = struck_out and es' = afterwards and inp = up_input
        and now = 3000 and q = "''socket_1''"]
      flagged_is_permanent [where ac = AntiCheat_new and q = "''socket_3''" and inp = up_input
        and now = 3000]
    by blast
qed

section \<open>Arena shrink\<close>

lemma game_run_append: "game_run g (es @ es') = game_run (game_run g es) es'"
  by (simp add: game_run_def)

lemma game_run_grid:
  "gridSize (game_run g es) = gridSize g" "shrinkRate (game_run g es) = shrinkRate g"
  unfolding game_run_def
  by (induction es arbitrary: g) (simp_all add: game_step_grid)

lemma game_step_floor:
  assumes "0 \<le> shrinkRate g" "real_of_int (gridSize g) * 0.25 \<le> arenaSize g"
  shows "real_of_int (gridSize g) * 0.25 \<le> arenaSize (game_step g e)"
    and "arenaSize (game_step g e) \<le> arenaSize g"
    and "arenaSize g = real_of_int (gridSize g) * 0.25
         \<Longrightarrow> arenaSize (game_step g e) = real_of_int (gridSize g) * 0.25"
  using assms by (auto simp: game_step_arena max_def)

lemma game_run_floor:
  assumes "0 \<le> shrinkRate g" "real_of_int (gridSize g) * 0.25 \<le> arenaSize g"
  shows "real_of_int (gridSize g) * 0.25 \<le> arenaSize (game_run g es)
       \<and> arenaSize (game_run g es) \<le> arenaSize g
       \<and> (arenaSize g = real_of_int (gridSize g) * 0.25
            \<longrightarrow> arenaSize (game_run g es) = real_of_int (gridSize g) * 0.25)"
  using assms
proof (induction es arbitrary: g)
  case Nil
  then show ?case by (simp add: game_run_def)
next
  case (Cons e es)
  let ?g = "game_step g e"
  have s: "0 \<le> shrinkRate ?g" "gridSize ?g = gridSize g"
    using Cons.prems by (simp_all add: game_step_grid)
  note f = game_step_floor[OF Cons.prems, of e]
  have "real_of_int (gridSize ?g) * 0.25 \<le> arenaSize (game_run ?g es)
       \<and> arenaSize (game_run ?g es) \<le> arenaSize ?g
       \<and> (arenaSize ?g = real_of_int (gridSize ?g) * 0.25
            \<longrightarrow> arenaSize (game_run ?g es) = real_of_int (gridSize ?g) * 0.25)"
    using Cons.IH[of ?g] s f(1) by simp
  moreover have "game_run g (e # es) = game_run ?g es"
    by (simp add: game_run_def)
  ultimately show ?case
    using f s(2) by auto
qed

text \<open>
  C9. The constructor, for a mode with a non-negative grid edge, sets the arena edge to
  the grid edge, which is at least a quarter of it, and a positive shrink rate. From any
  such match and through any sequence of events: the arena edge is at least a quarter of
  the grid edge at every moment; later it is never larger than earlier; a tick of an
  active match sets it to the larger of its old value less the shrink rate and a quarter
  of the grid edge; and once it equals a quarter of the grid edge it stays there.
\<close>

theorem arena_shrinks_to_floor:
  "(0 \<le> mode_gridSize m \<longrightarrow>
      0 < shrinkRate (Game_new i ps m)
      \<and> arenaSize (Game_new i ps m) = real_of_int (gridSize (Game_new i ps m))
      \<and> real_of_int (gridSize (Game_new i ps m)) * 0.25 \<le> arenaSize (Game_new i ps m))
   \<and> (0 \<le> shrinkRate g \<and> real_of_int (gridSize g) * 0.25 \<le> arenaSize g \<longrightarrow>
        real_of_int (gridSize g) * 0.25 \<le> arenaSize (game_run g es)
        \<and> arenaSize (game_run g (es @ es')) \<le> arenaSize (game_run g es)
        \<and> (state (game_run g es) = Active \<longrightarrow>
             arenaSize (tick now (game_run g es)) =
               max (arenaSize (game_run g es) - shrinkRate g) (real_of_int (gridSize g) * 0.25))
        \<and> (arenaSize (game_run g es) = real_of_int (gridSize g) * 0.25 \<longrightarrow>
             arenaSize (game_run g (es @ es')) = real_of_int (gridSize g) * 0.25))"
proof -
  have new: "0 < shrinkRate (Game_new i ps m)
      \<and> arenaSize (Game_new i ps m) = real_of_int (gridSize (Game_new i ps m))
      \<and> real_of_int (gridSize (Game_new i ps m)) * 0.25 \<le> arenaSize (Game_new i ps m)"
    if "0 \<le> mode_gridSize m"
    using that Game_new_arena(3)[of i ps m] by (simp add: Game_new_arena(1,2))
  have run: "real_of_int (gridSize g) * 0.25 \<le> arenaSize (game_run g es)
        \<and> arenaSize (game_run g (es @ es')) \<le> arenaSize (game_run g es)
        \<and> (state (game_run g es) = Active \<longrightarrow>
             arenaSize (tick now (game_run g es)) =
               max (arenaSize (game_run g es) - shrinkRate g) (real_of_int (gridSize g) * 0.25))
        \<and> (arenaSize (game_run g es) = real_of_int (gridSize g) * 0.25 \<longrightarrow>
             arenaSize (game_run g (es @ es')) = real_of_int (gridSize g) * 0.25)"
    if n: "0 \<le> shrinkRate g" "real_of_int (gridSize g) * 0.25 \<le> arenaSize g"
  proof -
    let ?h = "game_run g es"
    have grid: "gridSize ?h = gridSize g" "shrinkRate ?h = shrinkRate g"
      by (simp_all add: game_run_grid)
    note a = game_run_floor[OF n, of es]
    have h: "0 \<le> shrinkRate ?h" "real_of_int (gridSize ?h) * 0.25 \<le> arenaSize ?h"
      using a n by (simp_all add: game_run_grid)
    note b = game_run_floor[OF h, of es']
    have t: "arenaSize (tick now ?h) = max (arenaSize ?h - shrinkRate g) (real_of_int (gridSize g) * 0.25)"
      if "state ?h = Active"
      using tick_arena(1)[OF that, of now] grid by simp
    show ?thesis
      using a b t unfolding game_run_append grid by simp
  qed
  show ?thesis
    using new run by blast
qed

text \<open>A duel whose arena has reached the floor of 9 cells.\<close>

definition duel_floor :: game where
  "duel_floor = duel_start\<lparr> state := Active, arenaSize := 9 \<rparr>"

theorem arena_shrinks_to_floor_witness:
  "0 \<le> mode_gridSize duel_mode
   \<and> 0 \<le> shrinkRate duel_start
   \<and> real_of_int (gridSize duel_start) * 0.25 \<le> arenaSize duel_start
   \<and> state (game_run duel_start [Activate 3500]) = Active
   \<and> arenaSize (tick 3550 (game_run duel_start [Activate 3500])) = 35.998
   \<and> 0 \<le> shrinkRate duel_floor
   \<and> real_of_int (gridSize duel_floor) * 0.25 \<le> arenaSize duel_floor
   \<and> arenaSize (game_run duel_floor []) = real_of_int (gridSize duel_floor) * 0.25
   \<and> arenaSize (game_run duel_floor ([] @ [Tick 100000, Tick 100050])) = 9"
proof -
  have a: "0 \<le> mode_gridSize duel_mode"
    by (simp add: sample_defs)
  have b: "0 \<le> shrinkRate duel_start" "real_of_int (gridSize duel_start) * 0.25 \<le> arenaSize duel_start"
    by (simp_all add: duel_start_eq)
  have c: "state (game_run duel_start [Activate 3500]) = Active"
    "arenaSize (game_run duel_start [Activate 3500]) = 36"
    "shrinkRate duel_start = 0.002" "gridSize duel_start = 36"
    by (simp_all add: game_run_def activate_def duel_start_eq)
  have d: "0 \<le> shrinkRate duel_floor" "real_of_int (gridSize duel_floor) * 0.25 \<le> arenaSize duel_floor"
    "arenaSize (game_run duel_floor []) = real_of_int (gridSize duel_floor) * 0.25"
    "real_of_int (gridSize duel_floor) * 0.25 = 9"
    by (simp_all add: duel_floor_def duel_start_eq game_run_def)
  show ?thesis
    using a b c d
      arena_shrinks_to_floor [where g = duel_start and es = "[Activate 3500]" and now = 3550]
      arena_shrinks_to_floor [where g = duel_floor and es = "[]" and es' = "[Tick 100000, Tick 100050]"]
    by simp
qed

section \<open>Eliminated participants\<close>

text \<open>
  C4. A disconnect leaves the participant in the map, eliminated and otherwise as it
  was; a collision in the movement loop leaves the mover in the map, eliminated, with
  the position, heading and trail it had before the step. From then on, through any
  sequence of events, the map keeps its size, the eliminated participant's entry stays
  exactly as it is (position, heading, trail and every other field), and every cell of
  its trail is a collision for whoever asks.
\<close>

theorem eliminated_is_frozen:
  "(get_player k (players g) = Some q \<longrightarrow>
      get_player k (players (removePlayer g k)) = Some (eliminate q)
      \<and> length (players (removePlayer g k)) = length (players g))
   \<and> (i < length (players g) \<and> 1 \<le> subStep (players g ! i) \<and> blocked g i \<longrightarrow>
        length (players (moveLoop g i)) = length (players g)
        \<and> players (moveLoop g i) ! i = eliminate (stepping g i)
        \<and> position (players (moveLoop g i) ! i) = position (players g ! i)
        \<and> direction (players (moveLoop g i) ! i) = direction (players g ! i)
        \<and> trail (players (moveLoop g i) ! i) = trail (players g ! i))
   \<and> (j < length (players g) \<and> \<not> alive (players g ! j) \<longrightarrow>
        length (players (game_run g es)) = length (players g)
        \<and> players (game_run g es) ! j = players g ! j
        \<and> (\<forall>c \<in> set (trail (players g ! j)). \<forall>mover.
              checkCollision (game_run g es) (fst c) (snd c) mover
              \<and> isCollision (game_run g es) (fst c) (snd c)))"
proof -
  have one: "get_player k (players (removePlayer g k)) = Some (eliminate q)
      \<and> length (players (removePlayer g k)) = length (players g)"
    if q: "get_player k (players g) = Some q"
  proof (cases "alive q")
    case True
    with q show ?thesis
      using modify_player_nth[of k eliminate "players g"]
        get_player_modify[of eliminate k "players g"]
      by (simp add: removePlayer_def eliminatePlayer_def eliminate_def)
  next
    case False
    then have "eliminate q = q" by (simp add: eliminate_def)
    with q False show ?thesis by (simp add: removePlayer_def)
  qed
  have two: "length (players (moveLoop g i)) = length (players g)
        \<and> players (moveLoop g i) ! i = eliminate (stepping g i)
        \<and> position (players (moveLoop g i) ! i) = position (players g ! i)
        \<and> direction (players (moveLoop g i) ! i) = direction (players g ! i)
        \<and> trail (players (moveLoop g i) ! i) = trail (players g ! i)"
    if "i < length (players g)" "1 \<le> subStep (players g ! i)" "blocked g i"
    using that by (simp add: moveLoop_collide stepping_def eliminate_def)
  have three: "length (players (game_run g es)) = length (players g)
        \<and> players (game_run g es) ! j = players g ! j
        \<and> (\<forall>c \<in> set (trail (players g ! j)). \<forall>mover.
              checkCollision (game_run g es) (fst c) (snd c) mover
              \<and> isCollision (game_run g es) (fst c) (snd c))"
    if j: "j < length (players g)" "\<not> alive (players g ! j)"
  proof -
    note r = game_run_evolved[of g es]
    have same: "players (game_run g es) ! j = players g ! j"
      using r j by simp
    have "players g ! j \<in> set (players (game_run g es))"
      using r j same by (metis nth_mem)
    then have "checkCollision (game_run g es) (fst c) (snd c) mover
        \<and> isCollision (game_run g es) (fst c) (snd c)"
      if "c \<in> set (trail (players g ! j))" for c mover
      using checkCollision_trail[of "players g ! j" "game_run g es" c mover] that
      by (simp add: isCollision_def checkCollision_def)
    with r same show ?thesis by simp
  qed
  show ?thesis
    using one two three by blast
qed


theorem eliminated_is_frozen_witness:
  "get_player ''socket_b'' (players duel_start) = Some (players duel_start ! 1)
   \<and> get_player ''socket_b'' (players (removePlayer duel_start ''socket_b''))
       = Some (eliminate (players duel_start ! 1))
   \<and> 0 < length (players duel_crash) \<and> 1 \<le> subStep (players duel_crash ! 0) \<and> blocked duel_crash 0
   \<and> position (players (moveLoop duel_crash 0) ! 0) = (18, 29)
   \<and> \<not> alive (players (moveLoop duel_crash 0) ! 0)
   \<and> 1 < length (players squad_final) \<and> \<not> alive (players squad_final ! 1)
   \<and> (30, 29) \<in> set (trail (players squad_final ! 1))
   \<and> players (game_run squad_final [Tick 100, Input ''b'' ''up'' 120, Disconnect ''b'']) ! 1
       = players squad_final ! 1
   \<and> checkCollision (game_run squad_final [Tick 100, Input ''b'' ''up'' 120, Disconnect ''b''])
        30 29 ''a''"
proof -
  have a: "get_player ''socket_b'' (players duel_start) = Some (players duel_start ! 1)"
    by (simp add: duel_start_eq)
  have b: "0 < length (players duel_crash)" "1 \<le> subStep (players duel_crash ! 0)"
    "blocked duel_crash 0" "position (players duel_crash ! 0) = (18, 29)"
    by (simp_all add: duel_crash_def sample_defs blocked_def stepping_def nextCell_def
        checkCollision_def Let_def)
  have c: "1 < length (players squad_final)" "\<not> alive (players squad_final ! 1)"
    "(30, 29) \<in> set (trail (players squad_final ! 1))"
    by (simp_all add: squad_final_def sample_defs)
  have d: "\<not> alive (eliminate (stepping duel_crash 0))"
    by (simp add: eliminate_def)
  have r1: "get_player ''socket_b'' (players (removePlayer duel_start ''socket_b''))
       = Some (eliminate (players duel_start ! 1))"
    using a eliminated_is_frozen [where g = duel_start and k = "''socket_b''"
        and q = "players duel_start ! 1"]
    by blast
  have r2: "players (moveLoop duel_crash 0) ! 0 = eliminate (stepping duel_crash 0)
      \<and> position (players (moveLoop duel_crash 0) ! 0) = position (players duel_crash ! 0)"
    using b(1,2,3) eliminated_is_frozen [where g = duel_crash and i = 0]
    by blast
  have r3: "players (game_run squad_final [Tick 100, Input ''b'' ''up'' 120, Disconnect ''b'']) ! 1
       = players squad_final ! 1
     \<and> checkCollision (game_run squad_final [Tick 100, Input ''b'' ''up'' 120, Disconnect ''b''])
        (fst ((30, 29)::cell)) (snd ((30, 29)::cell)) ''a''"
    using c eliminated_is_frozen [where g = squad_final and j = 1
        and es = "[Tick 100, Input ''b'' ''up'' 120, Disconnect ''b'']"]
    by blast
  have r2a: "position (players (moveLoop duel_crash 0) ! 0) = (18, 29)"
    using conjunct2[OF r2] b(4) by (rule trans)
  have r2b: "\<not> alive (players (moveLoop duel_crash 0) ! 0)"
    using d unfolding conjunct1[OF r2] .
  show ?thesis
    using a b(1,2,3) c r1 r2a r2b r3 by simp
qed

section \<open>Headings\<close>

lemma applyDirection_axis:
  assumes "direction (applyDirection dir p) \<noteq> direction p"
  shows "(dir = ''up'' \<and> direction (applyDirection dir p) = (0, - 1) \<and> snd (direction p) = 0)
       \<or> (dir = ''down'' \<and> direction (applyDirection dir p) = (0, 1) \<and> snd (direction p) = 0)
       \<or> (dir = ''left'' \<and> direction (applyDirection dir p) = (- 1, 0) \<and> fst (direction p) = 0)
       \<or> (dir = ''right'' \<and> direction (applyDirection dir p) = (1, 0) \<and> fst (direction p) = 0)"
  using assms by (auto simp: applyDirection_def setDirection_def split: if_splits)

lemma handlePlayerInput_direction:
  assumes j: "j < length (players g)"
    and ch: "direction (players (handlePlayerInput g k dir now) ! j) \<noteq> direction (players g ! j)"
  shows "pid (players g ! j) = k \<and> \<not> isBot (players g ! j) \<and> alive (players g ! j)
       \<and> direction (players (handlePlayerInput g k dir now) ! j)
           = direction (applyDirection dir (players g ! j))"
proof -
  let ?f = "\<lambda>p. (applyDirection dir p)\<lparr> lastInputTime := now \<rparr>"
  from ch obtain pl where pl: "get_player k (players g) = Some pl" "alive pl" "\<not> isBot pl"
    "players (handlePlayerInput g k dir now) = modify_player k ?f (players g)"
    by (auto simp: handlePlayerInput_def split: option.splits if_splits)
  from modify_player_nth[of k ?f "players g"] j
  have "modify_player k ?f (players g) ! j = players g ! j
      \<or> (players g ! j = pl \<and> modify_player k ?f (players g) ! j = ?f pl)"
    using pl(1) by auto
  with ch pl show ?thesis
    using get_player_pid[OF pl(1)] by auto
qed

lemma tick_direction:
  assumes j: "j < length (players g)"
    and ch: "direction (players (tick now g) ! j) \<noteq> direction (players g ! j)"
  shows "isBot (players g ! j)"
proof -
  have act: "state g = Active"
  proof (rule ccontr)
    assume "state g \<noteq> Active"
    then have "tick now g = g" by (rule tick_idle)
    with ch show False by simp
  qed
  let ?b = "tick_bots now g"
  have "moved (players ?b ! j) (players (tick_moved now g) ! j)"
    using movePlayers_players[of ?b "[0..<length (players ?b)]"] by (simp add: tick_moved_def)
  then have "direction (players (tick now g) ! j) = direction (players ?b ! j)"
    by (simp add: tick_players[OF act] moved_def)
  with ch have "players ?b ! j \<noteq> players g ! j"
    by auto
  with tick_bots_players(2)[OF j, of now] show ?thesis
    by (auto simp: steered_def)
qed

text \<open>
  C8. Through any single event a participant's heading either stays or becomes a unit
  heading that is not the reverse of the old one, and only a living participant's
  heading changes. When a directional command changes a heading, the participant is the
  living human who sent it, and the command was \<open>up\<close> or \<open>down\<close> (new heading \<open>(0, -1)\<close> or
  \<open>(0, 1)\<close>) while the old heading had \<open>dy = 0\<close>, or \<open>left\<close> or \<open>right\<close> (new heading
  \<open>(-1, 0)\<close> or \<open>(1, 0)\<close>) while the old heading had \<open>dx = 0\<close>. When a tick changes a
  heading, the participant is a bot. The guard of \<open>setDirection\<close> itself never lets the
  exact reverse through.
\<close>

theorem heading_never_reverses:
  "(j < length (players g) \<and> direction (players (game_step g e) ! j) \<noteq> direction (players g ! j) \<longrightarrow>
      alive (players g ! j)
      \<and> direction (players (game_step g e) ! j) \<in> set headings
      \<and> direction (players (game_step g e) ! j)
           \<noteq> (- fst (direction (players g ! j)), - snd (direction (players g ! j)))
      \<and> (\<forall>k dir now. e = Input k dir now \<longrightarrow>
            pid (players g ! j) = k \<and> \<not> isBot (players g ! j)
            \<and> ((dir = ''up'' \<and> direction (players (game_step g e) ! j) = (0, - 1)
                 \<and> snd (direction (players g ! j)) = 0)
               \<or> (dir = ''down'' \<and> direction (players (game_step g e) ! j) = (0, 1)
                 \<and> snd (direction (players g ! j)) = 0)
               \<or> (dir = ''left'' \<and> direction (players (game_step g e) ! j) = (- 1, 0)
                 \<and> fst (direction (players g ! j)) = 0)
               \<or> (dir = ''right'' \<and> direction (players (game_step g e) ! j) = (1, 0)
                 \<and> fst (direction (players g ! j)) = 0)))
      \<and> (\<forall>now. e = Tick now \<longrightarrow> isBot (players g ! j)))
   \<and> (direction (setDirection dx dy p) \<noteq> direction p \<longrightarrow>
        direction (setDirection dx dy p) = (dx, dy)
        \<and> (dx, dy) \<noteq> (- fst (direction p), - snd (direction p)))"
proof -
  let ?d = "direction (players g ! j)"
  let ?d' = "direction (players (game_step g e) ! j)"
  have main: "alive (players g ! j) \<and> ?d' \<in> set headings \<and> ?d' \<noteq> (- fst ?d, - snd ?d)"
    if j: "j < length (players g)" and ch: "?d' \<noteq> ?d"
  proof -
    note ev = game_step_evolved(2)[OF j, of e]
    have "alive (players g ! j)"
      using ev ch by (auto simp: evolved_def)
    moreover have "?d' \<in> set headings" "fst ?d + fst ?d' \<noteq> 0 \<or> snd ?d + snd ?d' \<noteq> 0"
      using ev ch by (simp_all add: evolved_def)
    moreover from this(2) have "?d' \<noteq> (- fst ?d, - snd ?d)"
      by (cases ?d') auto
    ultimately show ?thesis by blast
  qed
  have inp: "pid (players g ! j) = k \<and> \<not> isBot (players g ! j)
            \<and> ((dir = ''up'' \<and> ?d' = (0, - 1) \<and> snd ?d = 0)
               \<or> (dir = ''down'' \<and> ?d' = (0, 1) \<and> snd ?d = 0)
               \<or> (dir = ''left'' \<and> ?d' = (- 1, 0) \<and> fst ?d = 0)
               \<or> (dir = ''right'' \<and> ?d' = (1, 0) \<and> fst ?d = 0))"
    if j: "j < length (players g)" and ch: "?d' \<noteq> ?d" and e: "e = Input k dir now" for k dir now
  proof -
    from ch e have ch': "direction (players (handlePlayerInput g k dir now) ! j) \<noteq> ?d"
      by simp
    note h = handlePlayerInput_direction[OF j ch']
    then have "direction (applyDirection dir (players g ! j)) \<noteq> ?d"
      using ch' by simp
    from applyDirection_axis[OF this] h show ?thesis
      unfolding e by simp
  qed
  have tck: "isBot (players g ! j)"
    if j: "j < length (players g)" and ch: "?d' \<noteq> ?d" and e: "e = Tick now" for now
    using tick_direction[OF j, of now] ch e by simp
  have sd: "direction (setDirection dx dy p) = (dx, dy)
        \<and> (dx, dy) \<noteq> (- fst (direction p), - snd (direction p))"
    if "direction (setDirection dx dy p) \<noteq> direction p"
    using that by (auto simp: setDirection_def split: if_splits)
  show ?thesis
    using main inp tck sd by blast
qed


theorem heading_never_reverses_witness:
  "0 < length (players duel_start)
   \<and> direction (players duel_start ! 0) = (0, 1)
   \<and> direction (players (game_step duel_start (Input ''socket_a'' ''left'' 4000)) ! 0) = (- 1, 0)
   \<and> direction (players (game_step duel_start (Input ''socket_a'' ''up'' 4000)) ! 0) = (0, 1)
   \<and> pid (players duel_start ! 0) = ''socket_a''
   \<and> fst (direction (players duel_start ! 0)) = 0
   \<and> direction (players (game_step duel_start (Input ''socket_a'' ''left'' 4000)) ! 0)
        \<noteq> (- fst (direction (players duel_start ! 0)), - snd (direction (players duel_start ! 0)))"
proof -
  have a: "0 < length (players duel_start)" "direction (players duel_start ! 0) = (0, 1)"
    "direction (players (game_step duel_start (Input ''socket_a'' ''left'' 4000)) ! 0) = (- 1, 0)"
    "direction (players (game_step duel_start (Input ''socket_a'' ''up'' 4000)) ! 0) = (0, 1)"
    by (simp_all add: duel_start_eq handlePlayerInput_def applyDirection_def setDirection_def)
  have b: "direction (players (game_step duel_start (Input ''socket_a'' ''left'' 4000)) ! 0)
      \<noteq> direction (players duel_start ! 0)"
    unfolding a by simp
  note t = heading_never_reverses [where g = duel_start and j = 0
      and e = "Input ''socket_a'' ''left'' 4000"]
  have c: "direction (players (game_step duel_start (Input ''socket_a'' ''left'' 4000)) ! 0)
        \<noteq> (- fst (direction (players duel_start ! 0)), - snd (direction (players duel_start ! 0)))"
    using t a(1) b by blast
  have d: "pid (players duel_start ! 0) = ''socket_a''" "fst (direction (players duel_start ! 0)) = 0"
    by (simp_all add: duel_start_eq)
  show ?thesis
    using a c d by blast
qed

section \<open>Trails and heads\<close>

lemma put_player_subset: "set (put_player p qs) \<subseteq> insert p (set qs)"
  by (induction qs) auto

lemma players_map_subset: "set (players_map ps) \<subseteq> set ps"
proof -
  have "set (foldl (\<lambda>m p. put_player p m) acc ps) \<subseteq> set acc \<union> set ps" for acc
  proof (induction ps arbitrary: acc)
    case Nil
    show ?case by simp
  next
    case (Cons p ps)
    from Cons[of "put_player p acc"] put_player_subset[of p acc] show ?case by auto
  qed
  from this[of "[]"] show ?thesis by (simp add: players_map_def)
qed

lemma spawnPlayer_ok:
  assumes "direction p \<in> set headings"
  shows "trail_ok (spawnPlayer gs n index p)"
    and "trail (spawnPlayer gs n index p) = trail p @ [position (spawnPlayer gs n index p)]"
  using assms
  by (auto simp: spawnPlayer_def Let_def trail_ok_def setDirection_def setPosition_def
      addTrailSegment_def headings_def)

lemma Game_new_players:
  "players (Game_new i ps m) =
     map (\<lambda>index. spawnPlayer (mode_gridSize m) (length (players_map ps)) index (players_map ps ! index))
       [0..<length (players_map ps)]"
  by (simp add: Game_new_def initializePlayerPositions_def)

lemma Game_new_ok:
  assumes "\<forall>p \<in> set ps. direction p \<in> set headings \<and> trail p = []"
    and "q \<in> set (players (Game_new i ps m))"
  shows "trail_ok q \<and> trail q = [position q]"
proof -
  from assms(2) obtain index where ix: "index < length (players_map ps)"
      "q = spawnPlayer (mode_gridSize m) (length (players_map ps)) index (players_map ps ! index)"
    by (auto simp: Game_new_players)
  have "players_map ps ! index \<in> set ps"
    using ix(1) players_map_subset[of ps] by (meson nth_mem subsetD)
  with assms(1) have "direction (players_map ps ! index) \<in> set headings" "trail (players_map ps ! index) = []"
    by auto
  from spawnPlayer_ok[OF this(1), of "mode_gridSize m" "length (players_map ps)" index] this(2) ix(2)
  show ?thesis by simp
qed


lemma blocked_by_head:
  assumes i: "i < length (players g)"
    and q: "q \<in> set (players g)" "trail q \<noteq> []" "last (trail q) = position q"
    and nx: "nextCell (players g ! i) = position q"
  shows "blocked g i"
proof -
  let ?ps = "(players g)[i := stepping g i]"
  obtain k where k: "k < length (players g)" "players g ! k = q"
    using q(1) by (auto simp: in_set_conv_nth)
  have "?ps ! k \<in> set ?ps"
    using k(1) by (simp add: nth_mem)
  moreover have "trail (?ps ! k) = trail q"
    using k i by (cases "k = i") (simp_all add: stepping_def)
  moreover have "position q \<in> set (trail q)"
    using q(2,3) last_in_set by metis
  ultimately have "\<exists>p \<in> set ?ps. nextCell (players g ! i) \<in> set (trail p)"
    using nx by metis
  then show ?thesis
    unfolding blocked_def checkCollision_def Let_def
    by (auto simp: list_ex_iff)
qed

text \<open>
  C10. A participant fresh from its constructor has an empty trail and the heading
  \<open>(1, 0)\<close>; the match constructor gives every such participant the trail consisting of
  its spawn cell. If every participant's trail is non-empty and ends in the
  participant's position, and its heading is a unit heading, then this is so after any
  sequence of events. For such a participant the cell of its head is a collision for
  whoever asks; a mover with a full step whose next cell is that head cell is
  eliminated by the movement loop; and a participant's next cell is never its own
  current cell.
\<close>

theorem head_is_on_trail:
  "trail (Player_new sid w n b t) = [] \<and> direction (Player_new sid w n b t) = (1, 0)
   \<and> ((\<forall>p \<in> set ps. direction p \<in> set headings \<and> trail p = []) \<longrightarrow>
        (\<forall>q \<in> set (players (Game_new i ps m)).
           trail q = [position q] \<and> direction q \<in> set headings))
   \<and> ((\<forall>j<length (players g).
           trail (players g ! j) \<noteq> [] \<and> last (trail (players g ! j)) = position (players g ! j)
           \<and> direction (players g ! j) \<in> set headings) \<longrightarrow>
        (\<forall>j<length (players (game_run g es)).
           trail (players (game_run g es) ! j) \<noteq> []
           \<and> last (trail (players (game_run g es) ! j)) = position (players (game_run g es) ! j)
           \<and> direction (players (game_run g es) ! j) \<in> set headings))
   \<and> (q \<in> set (players g) \<and> trail q \<noteq> [] \<and> last (trail q) = position q \<longrightarrow>
        checkCollision g (fst (position q)) (snd (position q)) mover
        \<and> (k < length (players g) \<and> 1 \<le> subStep (players g ! k)
             \<and> nextCell (players g ! k) = position q \<longrightarrow>
             \<not> alive (players (moveLoop g k) ! k)))
   \<and> (direction q \<in> set headings \<longrightarrow> nextCell q \<noteq> position q)"
proof -
  have one: "trail (Player_new sid w n b t) = [] \<and> direction (Player_new sid w n b t) = (1, 0)"
    by (simp add: Player_new_def)
  have two: "\<forall>q \<in> set (players (Game_new i ps m)). trail q = [position q] \<and> direction q \<in> set headings"
    if "\<forall>p \<in> set ps. direction p \<in> set headings \<and> trail p = []"
    using Game_new_ok[OF that] by (auto simp: trail_ok_def)
  have three: "\<forall>j<length (players (game_run g es)).
           trail (players (game_run g es) ! j) \<noteq> []
           \<and> last (trail (players (game_run g es) ! j)) = position (players (game_run g es) ! j)
           \<and> direction (players (game_run g es) ! j) \<in> set headings"
    if "\<forall>j<length (players g).
           trail (players g ! j) \<noteq> [] \<and> last (trail (players g ! j)) = position (players g ! j)
           \<and> direction (players g ! j) \<in> set headings"
    using game_run_evolved[of g es] that by (simp add: trail_ok_def)
  have four: "checkCollision g (fst (position q)) (snd (position q)) mover
        \<and> (k < length (players g) \<and> 1 \<le> subStep (players g ! k)
             \<and> nextCell (players g ! k) = position q \<longrightarrow>
             \<not> alive (players (moveLoop g k) ! k))"
    if q: "q \<in> set (players g)" "trail q \<noteq> []" "last (trail q) = position q"
  proof -
    have "position q \<in> set (trail q)"
      using q(2,3) last_in_set by metis
    from checkCollision_trail[OF q(1) this, of mover]
    have a: "checkCollision g (fst (position q)) (snd (position q)) mover" .
    have b: "\<not> alive (players (moveLoop g k) ! k)"
      if k: "k < length (players g)" "1 \<le> subStep (players g ! k)"
        "nextCell (players g ! k) = position q"
      using moveLoop_collide[OF k(1,2) blocked_by_head[OF k(1) q k(3)]] k(1)
      by (simp add: eliminate_def)
    from a b show ?thesis by blast
  qed
  have five: "nextCell q \<noteq> position q" if "direction q \<in> set headings"
    using that by (cases "position q") (auto simp: nextCell_def headings_def)
  show ?thesis
    using one two three four five by blast
qed


theorem head_is_on_trail_witness:
  "duel_start = Game_new ''game_duel_10'' duel_pair duel_mode
   \<and> players duel_start ! 0 \<in> set (players duel_start)
   \<and> trail (players duel_start ! 0) = [position (players duel_start ! 0)]
   \<and> 0 < length (players (game_run duel_start [Activate 3500, Tick 3550, Tick 3600, Tick 3650, Tick 3700]))
   \<and> last (trail (players (game_run duel_start [Activate 3500, Tick 3550, Tick 3600, Tick 3650, Tick 3700]) ! 0))
       = position (players (game_run duel_start [Activate 3500, Tick 3550, Tick 3600, Tick 3650, Tick 3700]) ! 0)
   \<and> players duel_crash ! 1 \<in> set (players duel_crash)
   \<and> 0 < length (players duel_crash) \<and> 1 \<le> subStep (players duel_crash ! 0)
   \<and> nextCell (players duel_crash ! 0) = position (players duel_crash ! 1)
   \<and> \<not> alive (players (moveLoop duel_crash 0) ! 0)
   \<and> nextCell (players duel_crash ! 0) \<noteq> position (players duel_crash ! 0)"
proof -
  let ?es = "[Activate 3500, Tick 3550, Tick 3600, Tick 3650, Tick 3700]"
  have fresh: "\<forall>p \<in> set duel_pair. direction p \<in> set headings \<and> trail p = []"
    by (simp add: duel_pair_def Player_new_def headings_def)
  have mem: "players duel_start ! 0 \<in> set (players duel_start)"
    by (simp add: duel_start_eq)
  have ok: "\<forall>j<length (players duel_start).
           trail (players duel_start ! j) \<noteq> []
           \<and> last (trail (players duel_start ! j)) = position (players duel_start ! j)
           \<and> direction (players duel_start ! j) \<in> set headings"
    by (simp add: duel_start_eq headings_def less_Suc_eq)
  have len: "0 < length (players (game_run duel_start ?es))"
    using game_run_evolved[of duel_start ?es] by (simp add: duel_start_eq)
  have crash: "players duel_crash ! 1 \<in> set (players duel_crash)"
    "trail (players duel_crash ! 1) \<noteq> []"
    "last (trail (players duel_crash ! 1)) = position (players duel_crash ! 1)"
    "0 < length (players duel_crash)" "1 \<le> subStep (players duel_crash ! 0)"
    "nextCell (players duel_crash ! 0) = position (players duel_crash ! 1)"
    "direction (players duel_crash ! 0) \<in> set headings"
    by (simp_all add: duel_crash_def sample_defs nextCell_def headings_def)
  have r1: "trail (players duel_start ! 0) = [position (players duel_start ! 0)]"
    using fresh mem head_is_on_trail [where ps = duel_pair and i = "''game_duel_10''" and m = duel_mode]
    unfolding duel_start_def by blast
  have r2: "last (trail (players (game_run duel_start ?es) ! 0))
       = position (players (game_run duel_start ?es) ! 0)"
    using ok len head_is_on_trail [where g = duel_start and es = ?es] by blast
  have r3: "\<not> alive (players (moveLoop duel_crash 0) ! 0)"
    using crash(1-6) head_is_on_trail [where g = duel_crash and q = "players duel_crash ! 1" and k = 0]
    by blast
  have r4: "nextCell (players duel_crash ! 0) \<noteq> position (players duel_crash ! 0)"
    using crash(7) head_is_on_trail [where q = "players duel_crash ! 0"] by blast
  show ?thesis
    using duel_start_def mem len crash r1 r2 r3 r4 by blast
qed

section \<open>Bot scoring\<close>

lemma lookAhead_bound:
  assumes "\<forall>i \<in> set is. 1 \<le> i"
  shows "score - 100 \<le> lookAhead g cur d is score \<and> lookAhead g cur d is score \<le> score"
  using assms
proof (induction "is" arbitrary: cur)
  case Nil
  show ?case by simp
next
  case (Cons i "is")
  have "1 \<le> i" using Cons.prems by simp
  then have "(LOOK_AHEAD - i + 1) * 20 \<le> 100"
    by (simp add: LOOK_AHEAD_def)
  then have "real ((LOOK_AHEAD - i + 1) * 20) \<le> 100" "0 \<le> real ((LOOK_AHEAD - i + 1) * 20)"
    by (simp_all only: of_nat_le_iff[symmetric, where ?'a = real] of_nat_numeral of_nat_0_le_iff)
  then show ?case
    using Cons.IH[of "(fst cur + fst d, snd cur + snd d)"] Cons.prems
    by (simp add: Let_def)
qed

lemma not_isCollision_inside:
  assumes "\<not> isCollision g x y"
  shows "(real_of_int (gridSize g) - arenaSize g) / 2 \<le> real_of_int x"
    and "real_of_int x < real_of_int (gridSize g) - (real_of_int (gridSize g) - arenaSize g) / 2"
    and "(real_of_int (gridSize g) - arenaSize g) / 2 \<le> real_of_int y"
    and "real_of_int y < real_of_int (gridSize g) - (real_of_int (gridSize g) - arenaSize g) / 2"
  using assms by (auto simp: isCollision_def Let_def split: if_splits)

lemma scoreDirection_collision:
  assumes "isCollision g (fst (position bt) + fst d) (snd (position bt) + snd d)"
  shows "scoreDirection g bt d = - 1000"
  using assms by (simp add: scoreDirection_def Let_def)

lemma center_bound:
  fixes x y G l :: real
  assumes "0 \<le> l" "l \<le> x" "x < G - l" "l \<le> y" "y < G - l"
  shows "\<bar>x - G / 2\<bar> + \<bar>y - G / 2\<bar> \<le> G"
    and "0 \<le> min (min (x - l) (y - l)) (min (G - l - x) (G - l - y))"
  using assms by linarith+

lemma score_bound:
  fixes s1 dc de G os :: real
  assumes "0 \<le> s1" "dc \<le> G" "0 \<le> de" "0 \<le> os"
  shows "- 90 - G / 2 \<le> (if de < 3 then s1 - dc * 0.5 - (3 - de) * 30 else s1 - dc * 0.5) + os * 2"
  using assms by (simp split: if_splits)

lemma scoreDirection_free:
  assumes free: "\<not> isCollision g (fst (position bt) + fst d) (snd (position bt) + snd d)"
    and arena: "arenaSize g \<le> real_of_int (gridSize g)"
  shows "- 90 - real_of_int (gridSize g) / 2 \<le> scoreDirection g bt d"
proof -
  let ?x = "fst (position bt) + fst d" and ?y = "snd (position bt) + snd d"
  let ?G = "real_of_int (gridSize g)"
  let ?limit = "(?G - arenaSize g) / 2"
  let ?s1 = "lookAhead g (?x, ?y) d [1..<LOOK_AHEAD + 1] 100"
  let ?dc = "\<bar>real_of_int ?x - ?G / 2\<bar> + \<bar>real_of_int ?y - ?G / 2\<bar>"
  let ?de = "min (min (real_of_int ?x - ?limit) (real_of_int ?y - ?limit))
                 (min (?G - ?limit - real_of_int ?x) (?G - ?limit - real_of_int ?y))"
  let ?s3 = "if ?de < DANGER_THRESHOLD then ?s1 - ?dc * 0.5 - (DANGER_THRESHOLD - ?de) * 30
             else ?s1 - ?dc * 0.5"
  have eq: "scoreDirection g bt d = ?s3 + real (countOpenSpace g ?x ?y) * 2"
    using free by (simp add: scoreDirection_def Let_def)
  note ins = not_isCollision_inside[OF free]
  have lim: "0 \<le> ?limit" using arena by simp
  have "\<forall>i \<in> set [1..<LOOK_AHEAD + 1]. 1 \<le> i"
    by (simp del: upt_Suc)
  from lookAhead_bound[OF this, of 100 g "(?x, ?y)" d] have s1: "0 \<le> ?s1"
    by (simp del: upt_Suc)
  have dc: "?dc \<le> ?G" and de: "0 \<le> ?de"
    using center_bound[OF lim ins] by blast+
  show ?thesis
    unfolding eq DANGER_THRESHOLD_def
    by (rule score_bound[OF s1 dc de]) simp
qed


lemma scoredDirections_best:
  assumes "c \<in> set (scoredDirections g bt)"
  shows "snd c \<le> snd (hd (scoredDirections g bt))"
proof -
  let ?cmp = "\<lambda>c1 c2 :: cell \<times> real. snd c2 - snd c1"
  have "sorted_wrt (\<lambda>a b. ?cmp a b \<le> 0) (scoredDirections g bt)"
    unfolding scoredDirections_def by (rule sorted_sort_by) simp_all
  moreover from assms obtain b bs where "scoredDirections g bt = b # bs"
    by (cases "scoredDirections g bt") auto
  ultimately show ?thesis
    using assms by auto
qed

lemma scoredDirections_set:
  "set (scoredDirections g bt) = (\<lambda>dir. (dir, scoreDirection g bt dir)) ` set (validDirections bt)"
  "length (scoredDirections g bt) = length (validDirections bt)"
  by (simp_all add: scoredDirections_def set_sort_by length_sort_by)

lemma validDirections_three:
  assumes "direction bt \<in> set headings"
  shows "length (validDirections bt) = 3"
proof -
  obtain dx dy where d: "direction bt = (dx, dy)"
    by (cases "direction bt")
  with assms have "(dx, dy) = (0, - 1) \<or> (dx, dy) = (0, 1) \<or> (dx, dy) = (- 1, 0) \<or> (dx, dy) = (1, 0)"
    by (simp add: headings_def)
  then show ?thesis
    unfolding validDirections_def d by (elim disjE) simp_all
qed

lemma botThink_unchanged:
  assumes "calculateBestDirection g bt = None"
  shows "botThink g bt = bt"
  using assms by (simp add: botThink_def Let_def split: option.splits)

lemma game_run_arena_le:
  assumes "0 \<le> mode_gridSize m"
  shows "arenaSize (game_run (Game_new i ps m) es) \<le> real_of_int (gridSize (game_run (Game_new i ps m) es))"
    and "gridSize (game_run (Game_new i ps m) es) = mode_gridSize m"
proof -
  have n: "0 \<le> shrinkRate (Game_new i ps m)"
    "real_of_int (gridSize (Game_new i ps m)) * 0.25 \<le> arenaSize (Game_new i ps m)"
    using assms Game_new_arena(3)[of i ps m] by (simp_all add: Game_new_arena(1,2))
  from game_run_floor[OF n, of es]
  show "arenaSize (game_run (Game_new i ps m) es) \<le> real_of_int (gridSize (game_run (Game_new i ps m) es))"
    by (simp add: game_run_grid Game_new_arena)
  show "gridSize (game_run (Game_new i ps m) es) = mode_gridSize m"
    by (simp add: game_run_grid Game_new_arena)
qed

text \<open>
  C6. A candidate whose next cell is a collision scores exactly \<open>-1000\<close>. In a match whose
  arena is no larger than its grid and whose grid edge is below 1820, a candidate whose
  next cell is not a collision scores at least \<open>-90 - gridSize / 2\<close>, which is more than
  \<open>-1000\<close>: the colliding candidate scores strictly lower. Every match constructed for a
  configured mode is such a match at every moment. For a bot with a unit heading there
  are exactly three candidates, the scored list holds exactly the valid candidates with
  their scores, and its first entry has the highest score. When that score is not
  positive (or there is no candidate) the decision is ``none'' and the bot is left as
  it is; otherwise the decision is the first entry's heading.
\<close>

theorem collision_dominates:
  "(isCollision g (fst (position bt) + fst d) (snd (position bt) + snd d) \<longrightarrow>
      scoreDirection g bt d = - 1000)
   \<and> (isCollision g (fst (position bt) + fst d) (snd (position bt) + snd d)
       \<and> \<not> isCollision g (fst (position bt) + fst d') (snd (position bt) + snd d')
       \<and> arenaSize g \<le> real_of_int (gridSize g) \<and> gridSize g < 1820 \<longrightarrow>
        - 1000 < - 90 - real_of_int (gridSize g) / 2
        \<and> - 90 - real_of_int (gridSize g) / 2 \<le> scoreDirection g bt d'
        \<and> scoreDirection g bt d < scoreDirection g bt d')
   \<and> (m \<in> snd ` set GAME_MODES \<longrightarrow>
        arenaSize (game_run (Game_new i ps m) es)
          \<le> real_of_int (gridSize (game_run (Game_new i ps m) es))
        \<and> gridSize (game_run (Game_new i ps m) es) < 1820)
   \<and> (direction bt \<in> set headings \<longrightarrow> length (scoredDirections g bt) = 3)
   \<and> set (scoredDirections g bt)
        = (\<lambda>dir. (dir, scoreDirection g bt dir)) ` set (validDirections bt)
   \<and> (\<forall>c \<in> set (scoredDirections g bt). snd c \<le> snd (hd (scoredDirections g bt)))
   \<and> (scoredDirections g bt = [] \<or> snd (hd (scoredDirections g bt)) \<le> 0 \<longrightarrow>
        calculateBestDirection g bt = None \<and> botThink g bt = bt)
   \<and> (scoredDirections g bt \<noteq> [] \<and> 0 < snd (hd (scoredDirections g bt)) \<longrightarrow>
        calculateBestDirection g bt = Some (fst (hd (scoredDirections g bt))))"
proof -
  have one: "scoreDirection g bt d = - 1000"
    if "isCollision g (fst (position bt) + fst d) (snd (position bt) + snd d)"
    using that by (rule scoreDirection_collision)
  have two: "- 1000 < - 90 - real_of_int (gridSize g) / 2
        \<and> - 90 - real_of_int (gridSize g) / 2 \<le> scoreDirection g bt d'
        \<and> scoreDirection g bt d < scoreDirection g bt d'"
    if c: "isCollision g (fst (position bt) + fst d) (snd (position bt) + snd d)"
      and f: "\<not> isCollision g (fst (position bt) + fst d') (snd (position bt) + snd d')"
      and a: "arenaSize g \<le> real_of_int (gridSize g)" and s: "gridSize g < 1820"
  proof -
    have "real_of_int (gridSize g) < 1820" using s by simp
    then have "- 1000 < - 90 - real_of_int (gridSize g) / 2" by simp
    with scoreDirection_free[OF f a] one[OF c] show ?thesis by simp
  qed
  have three: "arenaSize (game_run (Game_new i ps m) es)
          \<le> real_of_int (gridSize (game_run (Game_new i ps m) es))
        \<and> gridSize (game_run (Game_new i ps m) es) < 1820"
    if "m \<in> snd ` set GAME_MODES"
  proof -
    from that have "0 \<le> mode_gridSize m \<and> mode_gridSize m < 1820"
      by (auto simp: GAME_MODES_def)
    with game_run_arena_le[of m i ps es] show ?thesis by simp
  qed
  have four: "calculateBestDirection g bt = None \<and> botThink g bt = bt"
    if "scoredDirections g bt = [] \<or> snd (hd (scoredDirections g bt)) \<le> 0"
  proof -
    from that have "calculateBestDirection g bt = None"
      by (cases "scoredDirections g bt") (auto simp: calculateBestDirection_def)
    with botThink_unchanged show ?thesis by blast
  qed
  have five: "calculateBestDirection g bt = Some (fst (hd (scoredDirections g bt)))"
    if "scoredDirections g bt \<noteq> [] \<and> 0 < snd (hd (scoredDirections g bt))"
    using that by (cases "scoredDirections g bt") (auto simp: calculateBestDirection_def)
  have six: "direction bt \<in> set headings \<longrightarrow> length (scoredDirections g bt) = 3"
    by (simp add: scoredDirections_set(2) validDirections_three)
  show ?thesis
    using one two three four five six scoredDirections_set(1)[of g bt] scoredDirections_best[of _ g bt]
    by blast
qed


theorem collision_dominates_witness:
  "isCollision duel_crash (fst (position (players duel_crash ! 0)) + fst ((0, 1)::cell))
      (snd (position (players duel_crash ! 0)) + snd ((0, 1)::cell))
   \<and> \<not> isCollision duel_crash (fst (position (players duel_crash ! 0)) + fst ((1, 0)::cell))
      (snd (position (players duel_crash ! 0)) + snd ((1, 0)::cell))
   \<and> arenaSize duel_crash \<le> real_of_int (gridSize duel_crash) \<and> gridSize duel_crash < 1820
   \<and> scoreDirection duel_crash (players duel_crash ! 0) (0, 1)
       < scoreDirection duel_crash (players duel_crash ! 0) (1, 0)
   \<and> duel_mode \<in> snd ` set GAME_MODES
   \<and> gridSize (game_run (Game_new ''game_duel_10'' duel_pair duel_mode) [Activate 3500, Tick 3550]) < 1820
   \<and> direction boxed_bot \<in> set headings
   \<and> scoredDirections boxed_game boxed_bot = [((0, 1), - 1000), ((- 1, 0), - 1000), ((1, 0), - 1000)]
   \<and> snd (hd (scoredDirections boxed_game boxed_bot)) \<le> 0
   \<and> botThink boxed_game boxed_bot = boxed_bot"
proof -
  have a: "isCollision duel_crash (fst (position (players duel_crash ! 0)) + fst ((0, 1)::cell))
      (snd (position (players duel_crash ! 0)) + snd ((0, 1)::cell))"
    "\<not> isCollision duel_crash (fst (position (players duel_crash ! 0)) + fst ((1, 0)::cell))
      (snd (position (players duel_crash ! 0)) + snd ((1, 0)::cell))"
    "arenaSize duel_crash \<le> real_of_int (gridSize duel_crash)" "gridSize duel_crash < 1820"
    by (simp_all add: duel_crash_def sample_defs isCollision_def Let_def)
  have b: "duel_mode \<in> snd ` set GAME_MODES"
    by (simp add: duel_mode_def GAME_MODES_def)
  have c: "direction boxed_bot \<in> set headings"
    by (simp add: boxed_bot_def sample_defs headings_def)
  have col: "isCollision boxed_game (fst (position boxed_bot) + fst dir) (snd (position boxed_bot) + snd dir)"
    if "dir \<in> set (validDirections boxed_bot)" for dir
    using that
    by (auto simp: validDirections_def boxed_game_def boxed_bot_def sample_defs isCollision_def Let_def)
  have d: "scoredDirections boxed_game boxed_bot = [((0, 1), - 1000), ((- 1, 0), - 1000), ((1, 0), - 1000)]"
  proof -
    have v: "validDirections boxed_bot = [(0, 1), (- 1, 0), (1, 0)]"
      by (simp add: validDirections_def boxed_bot_def sample_defs)
    have "scoreDirection boxed_game boxed_bot dir = - 1000" if "dir \<in> set (validDirections boxed_bot)" for dir
      using collision_dominates [where g = boxed_game and bt = boxed_bot and d = dir] col[OF that]
      by blast
    then show ?thesis
      unfolding scoredDirections_def v by simp
  qed
  have e: "snd (hd (scoredDirections boxed_game boxed_bot)) \<le> 0"
    unfolding d by simp
  show ?thesis
    using a b c d e
      collision_dominates [where g = duel_crash and bt = "players duel_crash ! 0"
        and d = "(0, 1)" and d' = "(1, 0)"]
      collision_dominates [where m = duel_mode and i = "''game_duel_10''" and ps = duel_pair
        and es = "[Activate 3500, Tick 3550]"]
      collision_dominates [where g = boxed_game and bt = boxed_bot]
    by blast
qed

section \<open>Lobby sweep and bot backfill\<close>













































end
